theory Spec2Isabelle
  imports
    Complex_Main
    "HOL-Library.Word"
    "HOL-Library.Multiset"
    "HOL-Library.Char_ord"
    "HOL-Library.List_Lexorder"
begin

unbundle bit_operations_syntax

section \<open>Map tile tree and imagery providers (WebMercatorTileTree)\<close>

text \<open>
  A shallow embedding of the quadtree identity, coverage matching, imagery provider,
  tile loader and tile tree supplier code of the frontend's web mercator tile tree
  (\<^verbatim>\<open>src/unnamed/part_002\<close>).
\<close>

subsection \<open>Numbers\<close>

text \<open>
  A TypeScript number is \<open>NaN\<close>, an infinity or a finite value. The tile addresses are
  integer-valued (\<open>jsnum\<close>); the ground bias of a tile tree is any number. Comparisons
  with \<open>NaN\<close> are false, arithmetic with \<open>NaN\<close> is \<open>NaN\<close>.
\<close>

datatype 'a number = NaN | Num 'a | PlusInfinity | MinusInfinity

type_synonym jsnum = "int number"

fun jsLess :: "'a::linorder number \<Rightarrow> 'a number \<Rightarrow> bool" where
  "jsLess (Num a) (Num b) = (a < b)"
| "jsLess (Num a) PlusInfinity = True"
| "jsLess MinusInfinity (Num b) = True"
| "jsLess MinusInfinity PlusInfinity = True"
| "jsLess _ _ = False"

fun jsGreater :: "'a::linorder number \<Rightarrow> 'a number \<Rightarrow> bool" where
  "jsGreater (Num a) (Num b) = (a > b)"
| "jsGreater PlusInfinity (Num b) = True"
| "jsGreater (Num a) MinusInfinity = True"
| "jsGreater PlusInfinity MinusInfinity = True"
| "jsGreater _ _ = False"

fun jsGreaterEq :: "'a::linorder number \<Rightarrow> 'a number \<Rightarrow> bool" where
  "jsGreaterEq NaN _ = False"
| "jsGreaterEq _ NaN = False"
| "jsGreaterEq (Num a) (Num b) = (a \<ge> b)"
| "jsGreaterEq PlusInfinity _ = True"
| "jsGreaterEq _ MinusInfinity = True"
| "jsGreaterEq _ _ = False"

fun jsAdd :: "'a::plus number \<Rightarrow> 'a number \<Rightarrow> 'a number" where
  "jsAdd (Num a) (Num b) = Num (a + b)"
| "jsAdd NaN _ = NaN"
| "jsAdd _ NaN = NaN"
| "jsAdd PlusInfinity MinusInfinity = NaN"
| "jsAdd MinusInfinity PlusInfinity = NaN"
| "jsAdd PlusInfinity _ = PlusInfinity"
| "jsAdd _ PlusInfinity = PlusInfinity"
| "jsAdd MinusInfinity _ = MinusInfinity"
| "jsAdd _ MinusInfinity = MinusInfinity"

text \<open>
  Subtraction. The difference of two finite numbers is taken exactly: the rounding of the
  floating-point difference, or its overflow to an infinity, does not change its sign, nor
  whether it is zero.
\<close>

fun jsSubtract :: "'a::minus number \<Rightarrow> 'a number \<Rightarrow> 'a number" where
  "jsSubtract (Num a) (Num b) = Num (a - b)"
| "jsSubtract NaN _ = NaN"
| "jsSubtract _ NaN = NaN"
| "jsSubtract PlusInfinity PlusInfinity = NaN"
| "jsSubtract MinusInfinity MinusInfinity = NaN"
| "jsSubtract PlusInfinity _ = PlusInfinity"
| "jsSubtract _ MinusInfinity = PlusInfinity"
| "jsSubtract MinusInfinity _ = MinusInfinity"
| "jsSubtract _ PlusInfinity = MinusInfinity"

subsection \<open>Errors and assertions\<close>

text \<open>
  A thrown error or a rejected promise, with its message; the error of a failed assertion
  carries the message given to \<^verbatim>\<open>assert\<close>.
\<close>

datatype error = Error string | AssertionError string

text \<open>
  \<^verbatim>\<open>assert(condition, msg)\<close> of the core library (\<^verbatim>\<open>@bentley/bentleyjs-core\<close>, not among
  the sources): as published, it throws when the condition is false and returns otherwise.
\<close>

definition assert :: "bool \<Rightarrow> string \<Rightarrow> error + unit" where
  "assert condition msg = (if condition then Inr () else Inl (AssertionError msg))"

subsection \<open>Byte arrays\<close>

type_synonym Uint8Array = "8 word list"

text \<open>Reading a typed array at an index: \<open>None\<close> is \<^verbatim>\<open>undefined\<close>, beyond the end.\<close>

definition typedArrayGet :: "Uint8Array \<Rightarrow> nat \<Rightarrow> 8 word option" where
  "typedArrayGet a i = (if i < length a then Some (a ! i) else None)"

subsection \<open>Missing-tile fingerprint\<close>

text \<open>\<^verbatim>\<open>ImageryProvider.matchesMissingTile\<close>, the base class method.\<close>

definition ImageryProvider_matchesMissingTile :: "Uint8Array \<Rightarrow> bool" where
  "ImageryProvider_matchesMissingTile tileData = False"

text \<open>
  The loop of \<^verbatim>\<open>BingImageryProvider.matchesMissingTile\<close>:
  \<^verbatim>\<open>for (let i = 0; i < tileData.length; i += 10) if (missing[i] !== tileData[i]) return false;\<close>
  followed by \<^verbatim>\<open>return true\<close>.
\<close>

function missingTileLoop :: "Uint8Array \<Rightarrow> Uint8Array \<Rightarrow> nat \<Rightarrow> bool" where
  "missingTileLoop missingTileData tileData i =
     (if i < length tileData then
        (if typedArrayGet missingTileData i \<noteq> typedArrayGet tileData i then False
         else missingTileLoop missingTileData tileData (i + 10))
      else True)"
  by pat_completeness auto
termination
  by (relation "measure (\<lambda>(m, t, i). length t - i)") auto

declare missingTileLoop.simps [simp del]

subsection \<open>Tiles and draw order\<close>

record Tile =
  contentId :: string
  depth :: int
  isLoading :: bool

text \<open>
  \<^verbatim>\<open>Array.prototype.sort(compareFn)\<close>, as a stable insertion sort driven by the comparator:
  an element stays in front of the elements after it unless it compares greater (a
  positive result puts the second argument first, zero keeps the original order).
\<close>

fun insertBy :: "('a \<Rightarrow> 'a \<Rightarrow> int) \<Rightarrow> 'a \<Rightarrow> 'a list \<Rightarrow> 'a list" where
  "insertBy compareFn v [] = [v]"
| "insertBy compareFn v (w # ws) =
     (if compareFn v w > 0 then w # insertBy compareFn v ws else v # w # ws)"

fun arraySort :: "('a \<Rightarrow> 'a \<Rightarrow> int) \<Rightarrow> 'a list \<Rightarrow> 'a list" where
  "arraySort compareFn [] = []"
| "arraySort compareFn (v # vs) = insertBy compareFn v (arraySort compareFn vs)"

text \<open>\<^verbatim>\<open>MapTileLoaderBase.processSelectedTiles\<close>.\<close>

definition processSelectedTiles :: "Tile list \<Rightarrow> Tile list" where
  "processSelectedTiles selected = arraySort (\<lambda>lhs rhs. depth lhs - depth rhs) selected"

subsection \<open>Number and string conversions\<close>

definition isDigit :: "char \<Rightarrow> bool" where
  "isDigit c \<longleftrightarrow> 48 \<le> (of_char c :: nat) \<and> (of_char c :: nat) \<le> 57"

definition digitValue :: "char \<Rightarrow> nat" where
  "digitValue c = (of_char c :: nat) - 48"

definition digitChar :: "nat \<Rightarrow> char" where
  "digitChar d = ''0123456789'' ! d"

text \<open>
  The white space that \<^verbatim>\<open>parseInt\<close> skips, among the characters of an 8-bit string:
  TAB, LF, VT, FF, CR, SP and NBSP.
\<close>

definition isWhiteSpace :: "char \<Rightarrow> bool" where
  "isWhiteSpace c \<longleftrightarrow> (of_char c :: nat) \<in> {9, 10, 11, 12, 13, 32, 160}"

text \<open>The decimal digits of a natural number, most significant first.\<close>

fun natToDigits :: "nat \<Rightarrow> string" where
  "natToDigits n =
     (if n < 10 then [digitChar n] else natToDigits (n div 10) @ [digitChar (n mod 10)])"

declare natToDigits.simps [simp del]

definition stripTrailingZeros :: "string \<Rightarrow> string" where
  "stripTrailingZeros s = rev (dropWhile (\<lambda>c. c = CHR ''0'') (rev s))"

text \<open>The number of binary digits of a natural number.\<close>

fun bitLength :: "nat \<Rightarrow> nat" where
  "bitLength n = (if n = 0 then 0 else Suc (bitLength (n div 2)))"

declare bitLength.simps [simp del]

text \<open>
  The numbers are IEEE double-precision values, with 53 significant bits. \<open>roundMagnitude m\<close>
  is the magnitude of the number nearest to the integer \<open>m\<close>, ties going to the even
  significand; \<open>None\<close> stands for the overflow to infinity. Every integer below \<open>2^53\<close> is
  a number.
\<close>

definition roundMagnitude :: "nat \<Rightarrow> nat option" where
  "roundMagnitude m =
     (if m < 2 ^ 53 then Some m
      else
        (let e = bitLength m - 53;
             q = m div 2 ^ e;
             r = m mod 2 ^ e;
             half = 2 ^ (e - 1);
             q' = (if r > half \<or> (r = half \<and> odd q) then q + 1 else q);
             v = q' * 2 ^ e
         in if v \<ge> 2 ^ 1024 then None else Some v))"

text \<open>The integers that are values of numbers.\<close>

definition isNumberValue :: "int \<Rightarrow> bool" where
  "isNumberValue n \<longleftrightarrow> roundMagnitude (nat \<bar>n\<bar>) = Some (nat \<bar>n\<bar>)"

text \<open>
  The shortest decimal that reads back as the number of magnitude \<open>x\<close> (ECMAScript
  \<^emph>\<open>Number::toString\<close>, with the recommended choice of digits): for \<open>k = 1, 2, \<dots>\<close>
  significant digits, the two neighbours of \<open>x\<close> with \<open>k\<close> significant digits are tried;
  among those that round to \<open>x\<close> the nearer one is taken, the one with the even last digit
  on a tie. \<open>D\<close> is the number of decimal digits of \<open>x\<close>.
\<close>

function shortestFrom :: "nat \<Rightarrow> nat \<Rightarrow> nat \<Rightarrow> nat" where
  "shortestFrom x D k =
     (if k \<ge> D then x
      else
        (let p = 10 ^ (D - k);
             lo = (x div p) * p;
             hi = lo + p;
             okLo = (roundMagnitude lo = Some x);
             okHi = (roundMagnitude hi = Some x)
         in if okLo \<and> okHi then
              (if x - lo < hi - x then lo
               else if hi - x < x - lo then hi
               else if even (lo div p) then lo else hi)
            else if okLo then lo
            else if okHi then hi
            else shortestFrom x D (k + 1)))"
  by pat_completeness auto
termination
  by (relation "measure (\<lambda>(x, D, k). D - k)") auto

declare shortestFrom.simps [simp del]

definition shortestDecimal :: "nat \<Rightarrow> nat" where
  "shortestDecimal x =
     (if x < 2 ^ 53 then x else shortestFrom x (length (natToDigits x)) 1)"

text \<open>
  \<^verbatim>\<open>Number.prototype.toString\<close> of an integer-valued number of magnitude \<open>m\<close>: the
  shortest decimal \<open>v\<close> that reads back as \<open>m\<close> is printed in full when it is below
  \<open>10^21\<close> (an integer below \<open>2^53\<close> prints its own digits), and in the exponential form
  \<^verbatim>\<open>d.ddde+x\<close> from \<open>10^21\<close> on.
\<close>

definition magnitudeToString :: "nat \<Rightarrow> string" where
  "magnitudeToString m =
     (let v = shortestDecimal m; ds = natToDigits v in
      if v < 10 ^ 21 then ds
      else
        (let s = stripTrailingZeros ds; e = natToDigits (length ds - 1) in
         if length s = 1 then s @ ''e+'' @ e
         else hd s # CHR ''.'' # tl s @ ''e+'' @ e))"

fun numberToString :: "jsnum \<Rightarrow> string" where
  "numberToString NaN = ''NaN''"
| "numberToString PlusInfinity = ''Infinity''"
| "numberToString MinusInfinity = ''-Infinity''"
| "numberToString (Num n) =
     (if n < 0 then CHR ''-'' # magnitudeToString (nat (- n)) else magnitudeToString (nat n))"

text \<open>The value of a string of decimal digits.\<close>

definition digitsToNat :: "string \<Rightarrow> nat" where
  "digitsToNat ds = foldl (\<lambda>acc c. 10 * acc + digitValue c) 0 ds"

text \<open>
  \<^verbatim>\<open>parseInt(s, 10)\<close>: skip leading white space, read an optional sign, then the longest
  prefix of decimal digits; \<open>NaN\<close> when there is none. Whatever follows the digits is
  ignored. The result is the number nearest to the integer read.
\<close>

definition parseInt :: "string \<Rightarrow> jsnum" where
  "parseInt inputString =
     (let S = dropWhile isWhiteSpace inputString;
          negative = (case S of c # _ \<Rightarrow> c = CHR ''-'' | [] \<Rightarrow> False);
          S1 = (case S of c # r \<Rightarrow> if c = CHR ''-'' \<or> c = CHR ''+'' then r else S | [] \<Rightarrow> S);
          Z = takeWhile isDigit S1
      in if Z = [] then NaN
         else
           (case roundMagnitude (digitsToNat Z) of
              None \<Rightarrow> if negative then MinusInfinity else PlusInfinity
            | Some v \<Rightarrow> if negative then Num (- int v) else Num (int v)))"

text \<open>
  \<^verbatim>\<open>String.prototype.split(separator)\<close> for a one-character separator: \<open>cur\<close> holds the
  characters of the current part, last first.
\<close>

fun splitFrom :: "char \<Rightarrow> string \<Rightarrow> string \<Rightarrow> string list" where
  "splitFrom sep cur [] = [rev cur]"
| "splitFrom sep cur (c # cs) =
     (if c = sep then rev cur # splitFrom sep [] cs else splitFrom sep (c # cur) cs)"

definition split :: "string \<Rightarrow> char \<Rightarrow> string list" where
  "split s sep = splitFrom sep [] s"

subsection \<open>QuadId\<close>

record QuadId =
  level :: jsnum
  column :: jsnum
  row :: jsnum

definition newQuadId :: "jsnum \<Rightarrow> jsnum \<Rightarrow> jsnum \<Rightarrow> QuadId" where
  "newQuadId l c r = \<lparr>level = l, column = c, row = r\<rparr>"

definition isValid :: "QuadId \<Rightarrow> bool" where
  "isValid q = jsGreaterEq (level q) (Num 0)"

text \<open>
  \<^verbatim>\<open>QuadId.createFromContentId\<close>. In the wrong-length branch \<^verbatim>\<open>assert(false, ...)\<close> stands
  before the \<^verbatim>\<open>return\<close> of the invalid marker.
\<close>

definition createFromContentId :: "string \<Rightarrow> error + QuadId" where
  "createFromContentId stringId =
     (let idParts = split stringId CHR ''_'' in
      if 3 \<noteq> length idParts then
        (case assert False ''Invalid quadtree ID'' of
           Inl e \<Rightarrow> Inl e
         | Inr _ \<Rightarrow> Inr (newQuadId (Num (- 1)) (Num (- 1)) (Num (- 1))))
      else
        Inr (newQuadId (parseInt (idParts ! 0)) (parseInt (idParts ! 1)) (parseInt (idParts ! 2))))"

text \<open>The \<^verbatim>\<open>contentId\<close> getter of \<^verbatim>\<open>QuadId\<close>.\<close>

definition QuadId_contentId :: "QuadId \<Rightarrow> string" where
  "QuadId_contentId q =
     numberToString (level q) @ ''_'' @ numberToString (column q) @ ''_'' @ numberToString (row q)"

subsection \<open>Bing quadkeys\<close>

text \<open>
  The bitwise operators work on 32-bit integers: \<^verbatim>\<open>ToInt32\<close> keeps the low 32 bits of
  an integer, and \<^verbatim>\<open>a << b\<close> shifts by the low five bits of \<open>b\<close>.
\<close>

definition toInt32 :: "int \<Rightarrow> 32 word" where
  "toInt32 n = word_of_int n"

definition leftShift :: "int \<Rightarrow> int \<Rightarrow> 32 word" where
  "leftShift a b = push_bit (nat (b mod 32)) (toInt32 a)"

definition bitAnd :: "int \<Rightarrow> 32 word \<Rightarrow> 32 word" where
  "bitAnd a m = toInt32 a AND m"

definition fromCharCode :: "nat \<Rightarrow> char" where
  "fromCharCode n = char_of n"

text \<open>
  The loop of \<^verbatim>\<open>BingImageryProvider.tileXYToQuadKey\<close>:
  \<^verbatim>\<open>for (let i = zoomLevel; i > 0; i--) { ... quadKey = quadKey.concat(String.fromCharCode(digit)); }\<close>
  The assertion \<^verbatim>\<open>0 !== zoomLevel\<close> before the loop holds for every zoom level from 1 on,
  the levels the quadkey is built for.
\<close>

function quadKeyLoop :: "int \<Rightarrow> int \<Rightarrow> int \<Rightarrow> string \<Rightarrow> string" where
  "quadKeyLoop tileX tileY i quadKey =
     (if i > 0 then
        (let digit0 = 48;
             mask = leftShift 1 (i - 1);
             digit1 = (if bitAnd tileX mask \<noteq> 0 then digit0 + 1 else digit0);
             digit2 = (if bitAnd tileY mask \<noteq> 0 then digit1 + 2 else digit1)
         in quadKeyLoop tileX tileY (i - 1) (quadKey @ [fromCharCode digit2]))
      else quadKey)"
  by pat_completeness auto
termination
  by (relation "measure (\<lambda>(x, y, i, k). nat i)") auto

declare quadKeyLoop.simps [simp del]

definition tileXYToQuadKey :: "int \<Rightarrow> int \<Rightarrow> int \<Rightarrow> string" where
  "tileXYToQuadKey tileX tileY zoomLevel = quadKeyLoop tileX tileY zoomLevel ''''"

text \<open>
  The digit formula of the specification: \<open>z\<close> base-4 digits, most significant first, the
  digit for bit position \<open>i\<close> being \<open>'0' + 2 * bit(row, i) + bit(column, i)\<close>.
\<close>

definition quadKeyDigit :: "int \<Rightarrow> int \<Rightarrow> nat \<Rightarrow> char" where
  "quadKeyDigit col rw i = fromCharCode (48 + 2 * of_bool (bit rw i) + of_bool (bit col i))"

definition quadKeyByFormula :: "int \<Rightarrow> int \<Rightarrow> nat \<Rightarrow> string" where
  "quadKeyByFormula col rw z = map (quadKeyDigit col rw) (rev [0..<z])"

subsection \<open>Coverage and attribution\<close>

text \<open>
  The tiling scheme (\<^verbatim>\<open>MapTilingScheme\<close>, not part of the sources at hand) enters through
  \<^verbatim>\<open>tileXYToCartographic(x, y, level)\<close> only, which is taken as a parameter: the longitude
  and latitude, in radians, of the corner of a tile.
\<close>

type_synonym MapTilingScheme = "jsnum \<Rightarrow> jsnum \<Rightarrow> jsnum \<Rightarrow> real \<times> real"

text \<open>A two-dimensional range: \<open>low\<close> and \<open>high\<close> are points \<open>(x, y)\<close>.\<close>

record Range2d =
  low :: "real \<times> real"
  high :: "real \<times> real"

definition degreesPerRadian :: real where
  "degreesPerRadian = 180 / pi"

text \<open>
  Modelled from the spec: \<^verbatim>\<open>Range2d.createNull\<close> and \<^verbatim>\<open>Range2d.extendXY\<close> belong to the
  geometry library, which is not among the sources; the specification has the null range
  extended by two points be the bounding box of the two points.
\<close>

definition rangeOfTwoPoints :: "real \<times> real \<Rightarrow> real \<times> real \<Rightarrow> Range2d" where
  "rangeOfTwoPoints p0 p1 =
     \<lparr>low = (min (fst p0) (fst p1), min (snd p0) (snd p1)),
      high = (max (fst p0) (fst p1), max (snd p0) (snd p1))\<rparr>"

text \<open>\<^verbatim>\<open>QuadId.getLatLongRange\<close>.\<close>

definition getLatLongRange :: "QuadId \<Rightarrow> MapTilingScheme \<Rightarrow> Range2d" where
  "getLatLongRange this mapTilingScheme =
     (let (longitude0, latitude0) = mapTilingScheme (column this) (row this) (level this);
          p0 = (longitude0 * degreesPerRadian, latitude0 * degreesPerRadian);
          (longitude1, latitude1) =
             mapTilingScheme (jsAdd (column this) (Num 1)) (jsAdd (row this) (Num 1)) (level this);
          p1 = (longitude1 * degreesPerRadian, latitude1 * degreesPerRadian)
      in rangeOfTwoPoints p0 p1)"

record Coverage =
  lowerLeftLatitude :: real
  lowerLeftLongitude :: real
  upperRightLatitude :: real
  upperRightLongitude :: real
  minimumZoomLevel :: int
  maximumZoomLevel :: int

text \<open>\<^verbatim>\<open>Coverage.overlaps\<close>.\<close>

definition overlaps :: "Coverage \<Rightarrow> QuadId \<Rightarrow> MapTilingScheme \<Rightarrow> bool" where
  "overlaps this quadId tilingScheme =
     (let range = getLatLongRange quadId tilingScheme in
      if jsLess (level quadId) (Num (minimumZoomLevel this)) then False
      else if jsGreater (level quadId) (Num (maximumZoomLevel this)) then False
      else if fst (low range) > upperRightLongitude this then False
      else if snd (low range) > upperRightLatitude this then False
      else if fst (high range) < lowerLeftLongitude this then False
      else if snd (high range) < lowerLeftLatitude this then False
      else True)"

text \<open>
  The specification's side of the overlap test: the coverage's box, the inclusive
  intersection test of two axis-aligned boxes, the points of a box, and a box whose two
  corners lie inside another.
\<close>

definition coverageBox :: "Coverage \<Rightarrow> Range2d" where
  "coverageBox c = \<lparr>low = (lowerLeftLongitude c, lowerLeftLatitude c),
                    high = (upperRightLongitude c, upperRightLatitude c)\<rparr>"

definition boxesIntersect :: "Range2d \<Rightarrow> Range2d \<Rightarrow> bool" where
  "boxesIntersect a b \<longleftrightarrow>
     fst (low a) \<le> fst (high b) \<and> fst (low b) \<le> fst (high a) \<and>
     snd (low a) \<le> snd (high b) \<and> snd (low b) \<le> snd (high a)"

definition boxPoints :: "Range2d \<Rightarrow> (real \<times> real) set" where
  "boxPoints a = {p. fst (low a) \<le> fst p \<and> fst p \<le> fst (high a) \<and>
                     snd (low a) \<le> snd p \<and> snd p \<le> snd (high a)}"

definition boxInside :: "Range2d \<Rightarrow> Range2d \<Rightarrow> bool" where
  "boxInside a b \<longleftrightarrow> low a \<in> boxPoints b \<and> high a \<in> boxPoints b"

record BingAttribution =
  copyrightMessage :: string
  coverages :: "Coverage list"

text \<open>
  \<^verbatim>\<open>BingAttribution.matchesTile\<close>: the loop over the coverages, and the method, which
  throws when \<^verbatim>\<open>createFromContentId\<close> does.
\<close>

fun anyCoverageOverlaps :: "Coverage list \<Rightarrow> QuadId \<Rightarrow> MapTilingScheme \<Rightarrow> bool" where
  "anyCoverageOverlaps [] quadId tilingScheme = False"
| "anyCoverageOverlaps (coverage # rest) quadId tilingScheme =
     (if overlaps coverage quadId tilingScheme then True
      else anyCoverageOverlaps rest quadId tilingScheme)"

definition matchesTile :: "BingAttribution \<Rightarrow> Tile \<Rightarrow> MapTilingScheme \<Rightarrow> error + bool" where
  "matchesTile this tile tilingScheme =
     (case createFromContentId (contentId tile) of
        Inl e \<Rightarrow> Inl e
      | Inr quadId \<Rightarrow> Inr (anyCoverageOverlaps (coverages this) quadId tilingScheme))"

subsection \<open>Imagery providers\<close>

text \<open>
  The state of a \<^verbatim>\<open>BingImageryProvider\<close> that the operations below read: the attributions
  (\<open>None\<close> until \<^verbatim>\<open>readAttributions\<close> has stored one), the missing-tile fingerprint
  (\<open>None\<close> until the probe of \<^verbatim>\<open>initialize\<close> has stored it) and the tiling scheme.
\<close>

record BingImageryProvider =
  attributions :: "BingAttribution list option"
  missingTileData :: "Uint8Array option"
  mapTilingScheme :: MapTilingScheme

text \<open>\<^verbatim>\<open>BingImageryProvider.matchesMissingTile\<close>.\<close>

definition BingImageryProvider_matchesMissingTile :: "BingImageryProvider \<Rightarrow> Uint8Array \<Rightarrow> bool" where
  "BingImageryProvider_matchesMissingTile this tileData =
     (case missingTileData this of
        None \<Rightarrow> False
      | Some missing \<Rightarrow>
          (if length tileData \<noteq> length missing then False
           else missingTileLoop missing tileData 0))"

text \<open>
  The providers: Bing overrides \<^verbatim>\<open>matchesMissingTile\<close>, MapBox inherits the method of
  the base class.
\<close>

datatype ImageryProvider = Bing BingImageryProvider | MapBox

fun matchesMissingTile :: "ImageryProvider \<Rightarrow> Uint8Array \<Rightarrow> bool" where
  "matchesMissingTile (Bing this) tileData = BingImageryProvider_matchesMissingTile this tileData"
| "matchesMissingTile MapBox tileData = ImageryProvider_matchesMissingTile tileData"

text \<open>
  The inner loop of \<^verbatim>\<open>getMatchingAttributions\<close>, over the indices of \<^verbatim>\<open>unmatchedSet\<close>;
  \<^verbatim>\<open>delete unmatchedSet[iAttr]\<close> leaves a hole (\<open>None\<close>) and keeps the length. An error
  thrown by \<^verbatim>\<open>matchesTile\<close> ends the loops.
\<close>

function attributionLoop ::
  "Tile \<Rightarrow> MapTilingScheme \<Rightarrow> BingAttribution option list \<Rightarrow> BingAttribution list \<Rightarrow> nat
   \<Rightarrow> error + BingAttribution option list \<times> BingAttribution list" where
  "attributionLoop tile tilingScheme unmatchedSet matchingAttributions iAttr =
     (if iAttr < length unmatchedSet then
        (case unmatchedSet ! iAttr of
           Some attribution \<Rightarrow>
             (case matchesTile attribution tile tilingScheme of
                Inl e \<Rightarrow> Inl e
              | Inr matched \<Rightarrow>
                  if matched then
                    attributionLoop tile tilingScheme (unmatchedSet[iAttr := None])
                      (matchingAttributions @ [attribution]) (iAttr + 1)
                  else attributionLoop tile tilingScheme unmatchedSet matchingAttributions (iAttr + 1))
         | None \<Rightarrow> attributionLoop tile tilingScheme unmatchedSet matchingAttributions (iAttr + 1))
      else Inr (unmatchedSet, matchingAttributions))"
  by pat_completeness auto
termination
  by (relation "measure (\<lambda>(t, s, u, m, i). length u - i)") auto

declare attributionLoop.simps [simp del]

text \<open>The outer loop, over the tiles.\<close>

fun tilesLoop ::
  "Tile list \<Rightarrow> MapTilingScheme \<Rightarrow> BingAttribution option list \<Rightarrow> BingAttribution list
   \<Rightarrow> error + BingAttribution list" where
  "tilesLoop [] tilingScheme unmatchedSet matchingAttributions = Inr matchingAttributions"
| "tilesLoop (tile # tiles) tilingScheme unmatchedSet matchingAttributions =
     (case attributionLoop tile tilingScheme unmatchedSet matchingAttributions 0 of
        Inl e \<Rightarrow> Inl e
      | Inr (unmatchedSet', matchingAttributions') \<Rightarrow>
          tilesLoop tiles tilingScheme unmatchedSet' matchingAttributions')"

text \<open>\<^verbatim>\<open>BingImageryProvider.getMatchingAttributions\<close>.\<close>

definition getMatchingAttributions ::
  "BingImageryProvider \<Rightarrow> Tile list \<Rightarrow> error + BingAttribution list" where
  "getMatchingAttributions this tiles =
     (case attributions this of
        None \<Rightarrow> Inr []
      | Some attrs \<Rightarrow> tilesLoop tiles (mapTilingScheme this) (map Some attrs) [])"

text \<open>The attributions still present in an array with holes.\<close>

fun present :: "'a option list \<Rightarrow> 'a list" where
  "present [] = []"
| "present (None # rest) = present rest"
| "present (Some a # rest) = a # present rest"

text \<open>
  A tiling scheme for the examples: the corner of tile \<open>(x, y)\<close> lies at \<open>x\<close> degrees of
  longitude and \<open>y\<close> degrees of latitude, at every level.
\<close>

fun degreeGridScheme :: MapTilingScheme where
  "degreeGridScheme (Num a) (Num b) l =
     (real_of_int a / degreesPerRadian, real_of_int b / degreesPerRadian)"
| "degreeGridScheme _ _ _ = (0, 0)"

subsection \<open>Loading a tile\<close>

datatype ImageSourceFormat = Jpeg | Png

record ImageSource =
  data :: Uint8Array
  format :: ImageSourceFormat

text \<open>The response of \<^verbatim>\<open>request\<close>: the body and the header dictionary.\<close>

record Response =
  body :: Uint8Array
  header :: "string \<rightharpoonup> string"

text \<open>
  \<^verbatim>\<open>ImageryProvider.loadTile\<close>. The abstract method \<^verbatim>\<open>constructUrl\<close> and the network
  function \<^verbatim>\<open>request\<close> are parameters; either may throw (\<open>Inl\<close>). The call of
  \<^verbatim>\<open>constructUrl\<close> stands before the \<^verbatim>\<open>try\<close> block, everything else inside it. In the
  result, \<open>Inr None\<close> is \<^verbatim>\<open>undefined\<close>. The \<^verbatim>\<open>assert(false, ...)\<close> of the default branch
  throws into the \<^verbatim>\<open>catch\<close>, which returns \<^verbatim>\<open>undefined\<close> as well.
\<close>

definition loadTile ::
  "ImageryProvider \<Rightarrow> (jsnum \<Rightarrow> jsnum \<Rightarrow> jsnum \<Rightarrow> error + string) \<Rightarrow> (string \<Rightarrow> error + Response)
   \<Rightarrow> jsnum \<Rightarrow> jsnum \<Rightarrow> jsnum \<Rightarrow> error + ImageSource option" where
  "loadTile this constructUrl request rw col zoomLevel =
     (case constructUrl rw col zoomLevel of
        Inl e \<Rightarrow> Inl e
      | Inr tileUrl \<Rightarrow>
          (case request tileUrl of
             Inl e \<Rightarrow> Inr None
           | Inr tileResponse \<Rightarrow>
               (let byteArray = body tileResponse in
                if length byteArray = 0 then Inr None
                else if matchesMissingTile this byteArray then Inr None
                else
                  (case header tileResponse ''content-type'' of
                     None \<Rightarrow> Inr None
                   | Some contentType \<Rightarrow>
                       if contentType = ''image/jpeg''
                       then Inr (Some \<lparr>data = byteArray, format = Jpeg\<rparr>)
                       else if contentType = ''image/png''
                       then Inr (Some \<lparr>data = byteArray, format = Png\<rparr>)
                       else Inr None))))"

subsection \<open>Loading tile content\<close>

text \<open>Images, textures and graphics are handles of the render system.\<close>

type_synonym HTMLImageElement = nat
type_synonym RenderTexture = nat
type_synonym RenderGraphic = nat

text \<open>The calls into the render system; \<open>None\<close> is \<^verbatim>\<open>undefined\<close>, \<open>Inl\<close> a thrown error.\<close>

record RenderSystem =
  createTextureFromImage :: "HTMLImageElement \<Rightarrow> bool \<Rightarrow> error + RenderTexture option"
  createTile :: "RenderTexture \<Rightarrow> error + RenderGraphic option"
  createBatch :: "RenderGraphic \<Rightarrow> error + RenderGraphic"

record TileContent =
  graphic :: "RenderGraphic option"

text \<open>
  The cancellation predicate \<^verbatim>\<open>isCanceled: () => boolean\<close> reads the state of the request,
  so that what it returns depends on when it is called: in the window between the fetch
  of the tile and the decoding of its image, or once the image is decoded.
\<close>

datatype moment = BetweenFetchAndDecode | AfterDecode

text \<open>
  \<^verbatim>\<open>WebMapTileLoader.loadTextureImage\<close>: the image is decoded
  (\<^verbatim>\<open>imageElementFromImageSource\<close>, a parameter, which resolves or rejects), then
  \<^verbatim>\<open>isCanceled\<close> is called, then the texture is created; a rejection or an error
  anywhere gives \<^verbatim>\<open>undefined\<close>.
\<close>

definition loadTextureImage ::
  "(ImageSource \<Rightarrow> error + HTMLImageElement) \<Rightarrow> ImageSource \<Rightarrow> RenderSystem \<Rightarrow> (moment \<Rightarrow> bool)
   \<Rightarrow> RenderTexture option" where
  "loadTextureImage imageElementFromImageSource imageSource system isCanceled =
     (case imageElementFromImageSource imageSource of
        Inl e \<Rightarrow> None
      | Inr imageElement \<Rightarrow>
          (if isCanceled AfterDecode then None
           else
             (case createTextureFromImage system imageElement (format imageSource = Png) of
                Inl e \<Rightarrow> None
              | Inr texture \<Rightarrow> texture)))"

text \<open>
  \<^verbatim>\<open>WebMapTileLoader.loadTileContent\<close>. The tile's \<^verbatim>\<open>reprojectCorners\<close> (of the map tile
  tree, not among the sources) is awaited first, outside any \<^verbatim>\<open>try\<close>, and is a parameter
  that completes or rejects. Without a cancellation predicate the default is
  \<^verbatim>\<open>() => !tile.isLoading\<close>.
\<close>

definition loadTileContent ::
  "(Tile \<Rightarrow> error + unit) \<Rightarrow> (ImageSource \<Rightarrow> error + HTMLImageElement) \<Rightarrow> RenderSystem
   \<Rightarrow> Tile \<Rightarrow> ImageSource \<Rightarrow> (moment \<Rightarrow> bool) option \<Rightarrow> error + TileContent" where
  "loadTileContent reprojectCorners imageElementFromImageSource system tile responseData isCanceled =
     (let isCanceled' = (case isCanceled of None \<Rightarrow> (\<lambda>_. \<not> isLoading tile) | Some f \<Rightarrow> f) in
      case reprojectCorners tile of
        Inl e \<Rightarrow> Inl e
      | Inr _ \<Rightarrow>
          (case loadTextureImage imageElementFromImageSource responseData system isCanceled' of
             None \<Rightarrow> Inr \<lparr>graphic = None\<rparr>
           | Some texture \<Rightarrow>
               (case createTile system texture of
                  Inl e \<Rightarrow> Inl e
                | Inr None \<Rightarrow> Inr \<lparr>graphic = None\<rparr>
                | Inr (Some g) \<Rightarrow>
                    (case createBatch system g of
                       Inl e \<Rightarrow> Inl e
                     | Inr batch \<Rightarrow> Inr \<lparr>graphic = Some batch\<rparr>))))"

subsection \<open>Tile tree identity\<close>

text \<open>
  The map type is the value of the \<^verbatim>\<open>BackgroundMapType\<close> enumeration, an integer; the
  ground bias is any number.
\<close>

record BackgroundMapTreeId =
  providerName :: string
  mapType :: int
  groundBias :: "real number"
  forDrape :: bool

text \<open>
  The comparison helpers of the core library (\<^verbatim>\<open>@bentley/bentleyjs-core\<close>, not among the
  sources), as published: \<^verbatim>\<open>compareStrings\<close> and \<^verbatim>\<open>compareBooleans\<close> return \<open>-1\<close>, \<open>0\<close> or
  \<open>1\<close> (\<open>false\<close> before \<open>true\<close>), \<^verbatim>\<open>compareNumbers\<close> returns the difference of its
  arguments.
\<close>

definition compareStrings :: "string \<Rightarrow> string \<Rightarrow> real number" where
  "compareStrings a b = (if a = b then Num 0 else if a < b then Num (- 1) else Num 1)"

definition compareNumbers :: "real number \<Rightarrow> real number \<Rightarrow> real number" where
  "compareNumbers a b = jsSubtract a b"

definition compareBooleans :: "bool \<Rightarrow> bool \<Rightarrow> real number" where
  "compareBooleans a b = (if a \<noteq> b then (if a < b then Num (- 1) else Num 1) else Num 0)"

text \<open>\<^verbatim>\<open>BackgroundMapTreeSupplier.compareTileTreeIds\<close>.\<close>

definition compareTileTreeIds :: "BackgroundMapTreeId \<Rightarrow> BackgroundMapTreeId \<Rightarrow> real number" where
  "compareTileTreeIds lhs rhs =
     (let cmp = compareStrings (providerName lhs) (providerName rhs) in
      if Num 0 = cmp then
        (let cmp = compareNumbers (Num (real_of_int (mapType lhs))) (Num (real_of_int (mapType rhs))) in
         if Num 0 = cmp then
           (let cmp = compareNumbers (groundBias lhs) (groundBias rhs) in
            if Num 0 = cmp then compareBooleans (forDrape lhs) (forDrape rhs)
            else cmp)
         else cmp)
      else cmp)"

text \<open>
  The lexicographic order on the identity tuple (provider name, map type, ground bias,
  drape flag), for finite ground biases.
\<close>

fun lexLess :: "string \<times> int \<times> real \<times> bool \<Rightarrow> string \<times> int \<times> real \<times> bool \<Rightarrow> bool" where
  "lexLess (n, t, g, d) (n', t', g', d') \<longleftrightarrow>
     n < n' \<or> (n = n' \<and> (t < t' \<or> (t = t' \<and> (g < g' \<or> (g = g' \<and> d < d')))))"

section \<open>Properties\<close>

subsection \<open>Missing-tile fingerprint\<close>

lemma missingTileLoop_iff:
  "length missing = length tileData \<Longrightarrow>
   missingTileLoop missing tileData i \<longleftrightarrow>
     (\<forall>k. i + 10 * k < length tileData \<longrightarrow> missing ! (i + 10 * k) = tileData ! (i + 10 * k))"
proof (induction missing tileData i rule: missingTileLoop.induct)
  case (1 missing tileData i)
  show ?case
  proof (cases "i < length tileData")
    case False
    then show ?thesis
      by (subst missingTileLoop.simps) simp
  next
    case inb: True
    show ?thesis
    proof (cases "missing ! i = tileData ! i")
      case False
      have "\<not> missingTileLoop missing tileData i"
        using inb False "1.prems"
        by (subst missingTileLoop.simps) (simp add: typedArrayGet_def)
      moreover have "\<not> (\<forall>k. i + 10 * k < length tileData \<longrightarrow>
          missing ! (i + 10 * k) = tileData ! (i + 10 * k))"
        using inb False by (auto intro: exI [of _ 0])
      ultimately show ?thesis by blast
    next
      case same: True
      have step: "missingTileLoop missing tileData i = missingTileLoop missing tileData (i + 10)"
        using inb same "1.prems"
        by (subst missingTileLoop.simps) (simp add: typedArrayGet_def)
      have ih: "missingTileLoop missing tileData (i + 10) \<longleftrightarrow>
          (\<forall>k. i + 10 + 10 * k < length tileData \<longrightarrow>
             missing ! (i + 10 + 10 * k) = tileData ! (i + 10 + 10 * k))"
        using "1.IH" inb same "1.prems" by (simp add: typedArrayGet_def)
      have "(\<forall>k. i + 10 * k < length tileData \<longrightarrow>
               missing ! (i + 10 * k) = tileData ! (i + 10 * k)) \<longleftrightarrow>
            (\<forall>k. i + 10 + 10 * k < length tileData \<longrightarrow>
               missing ! (i + 10 + 10 * k) = tileData ! (i + 10 + 10 * k))"
        (is "?L \<longleftrightarrow> ?R")
      proof
        assume l: ?L
        show ?R
        proof (intro allI impI)
          fix k assume "i + 10 + 10 * k < length tileData"
          then show "missing ! (i + 10 + 10 * k) = tileData ! (i + 10 + 10 * k)"
            using l [rule_format, of "Suc k"] by (simp add: algebra_simps)
        qed
      next
        assume r: ?R
        show ?L
        proof (intro allI impI)
          fix k assume kb: "i + 10 * k < length tileData"
          show "missing ! (i + 10 * k) = tileData ! (i + 10 * k)"
          proof (cases k)
            case 0
            then show ?thesis using same by simp
          next
            case (Suc j)
            then show ?thesis
              using r [rule_format, of j] kb by (simp add: algebra_simps)
          qed
        qed
      qed
      with step ih show ?thesis by simp
    qed
  qed
qed

lemma multiples_of_ten:
  "(\<forall>k. 10 * k < n \<longrightarrow> P (10 * k)) \<longleftrightarrow> (\<forall>i<n. i mod 10 = 0 \<longrightarrow> P (i::nat))"
proof
  assume l: "\<forall>k. 10 * k < n \<longrightarrow> P (10 * k)"
  show "\<forall>i<n. i mod 10 = 0 \<longrightarrow> P i"
  proof (intro allI impI)
    fix i assume "i < n" "i mod 10 = 0"
    then have "10 * (i div 10) = i" "10 * (i div 10) < n" by auto
    then show "P i" using l [rule_format, of "i div 10"] by simp
  qed
next
  assume "\<forall>i<n. i mod 10 = 0 \<longrightarrow> P i"
  then show "\<forall>k. 10 * k < n \<longrightarrow> P (10 * k)" by simp
qed

text \<open>
  C10. \<^verbatim>\<open>BingImageryProvider.matchesMissingTile\<close> is true exactly when a fingerprint has
  been captured, the tile data has the fingerprint's length, and the two arrays agree at
  every index that is a multiple of 10; with no fingerprint it is false; the base class
  method is false for every input.
\<close>

theorem matchesMissingTile_sampled:
  "(BingImageryProvider_matchesMissingTile this tileData \<longleftrightarrow>
      (\<exists>missing. missingTileData this = Some missing \<and> length tileData = length missing \<and>
         (\<forall>i<length tileData. i mod 10 = 0 \<longrightarrow> missing ! i = tileData ! i)))
   \<and> (missingTileData this = None \<longrightarrow> \<not> BingImageryProvider_matchesMissingTile this tileData)
   \<and> \<not> ImageryProvider_matchesMissingTile tileData"
proof -
  have a: "missingTileData this = None \<longrightarrow> \<not> BingImageryProvider_matchesMissingTile this tileData"
    by (simp add: BingImageryProvider_matchesMissingTile_def)
  have b: "\<not> ImageryProvider_matchesMissingTile tileData"
    by (simp add: ImageryProvider_matchesMissingTile_def)
  have c: "BingImageryProvider_matchesMissingTile this tileData \<longleftrightarrow>
      (\<exists>missing. missingTileData this = Some missing \<and> length tileData = length missing \<and>
         (\<forall>i<length tileData. i mod 10 = 0 \<longrightarrow> missing ! i = tileData ! i))"
  proof (cases "missingTileData this")
    case None
    then show ?thesis by (simp add: BingImageryProvider_matchesMissingTile_def)
  next
    case (Some missing)
    show ?thesis
    proof (cases "length tileData = length missing")
      case False
      then show ?thesis using Some by (simp add: BingImageryProvider_matchesMissingTile_def)
    next
      case True
      then have "missingTileLoop missing tileData 0 \<longleftrightarrow>
          (\<forall>i<length tileData. i mod 10 = 0 \<longrightarrow> missing ! i = tileData ! i)"
        using missingTileLoop_iff [of missing tileData 0]
          multiples_of_ten [of "length tileData" "\<lambda>i. missing ! i = tileData ! i"]
        by simp
      then show ?thesis
        using Some True by (simp add: BingImageryProvider_matchesMissingTile_def)
    qed
  qed
  from a b c show ?thesis by blast
qed

theorem matchesMissingTile_sampled_witness:
  "BingImageryProvider_matchesMissingTile
     \<lparr>attributions = None, missingTileData = Some [1, 2, 3], mapTilingScheme = (\<lambda>x y l. (0, 0))\<rparr>
     [1, 9, 9]
   \<and> \<not> BingImageryProvider_matchesMissingTile
     \<lparr>attributions = None, missingTileData = Some [1, 2, 3], mapTilingScheme = (\<lambda>x y l. (0, 0))\<rparr>
     [7, 2, 3]
   \<and> \<not> BingImageryProvider_matchesMissingTile
     \<lparr>attributions = None, missingTileData = Some [1, 2, 3], mapTilingScheme = (\<lambda>x y l. (0, 0))\<rparr>
     [1, 2]
   \<and> \<not> BingImageryProvider_matchesMissingTile
     \<lparr>attributions = None, missingTileData = None, mapTilingScheme = (\<lambda>x y l. (0, 0))\<rparr>
     [1, 2, 3]"
proof -
  let ?p = "\<lparr>attributions = None, missingTileData = Some [1, 2, 3 :: 8 word],
            mapTilingScheme = (\<lambda>x y l. (0, 0))\<rparr>"
  let ?q = "\<lparr>attributions = None, missingTileData = None,
            mapTilingScheme = (\<lambda>x y l. (0, 0))\<rparr>"
  have zero: "\<And>i::nat. i < 3 \<Longrightarrow> i mod 10 = 0 \<Longrightarrow> i = 0"
    by presburger
  have "\<forall>i<length [1, 9, 9 :: 8 word]. i mod 10 = 0 \<longrightarrow> [1, 2, 3 :: 8 word] ! i = [1, 9, 9] ! i"
  proof (intro allI impI)
    fix i :: nat assume "i < length [1, 9, 9 :: 8 word]" "i mod 10 = 0"
    then have "i = 0" using zero [of i] by simp
    then show "[1, 2, 3 :: 8 word] ! i = [1, 9, 9] ! i" by simp
  qed
  then have one: "BingImageryProvider_matchesMissingTile ?p [1, 9, 9]"
    using matchesMissingTile_sampled [of ?p "[1, 9, 9]"] by simp
  have "\<not> (\<forall>i<length [7, 2, 3 :: 8 word]. i mod 10 = 0 \<longrightarrow> [1, 2, 3 :: 8 word] ! i = [7, 2, 3] ! i)"
    by (auto intro: exI [of _ 0])
  then have two: "\<not> BingImageryProvider_matchesMissingTile ?p [7, 2, 3]"
    using matchesMissingTile_sampled [of ?p "[7, 2, 3]"] by simp
  have three: "\<not> BingImageryProvider_matchesMissingTile ?p [1, 2]"
    using matchesMissingTile_sampled [of ?p "[1, 2]"] by simp
  have four: "\<not> BingImageryProvider_matchesMissingTile ?q [1, 2, 3]"
    using matchesMissingTile_sampled [of ?q "[1, 2, 3]"] by simp
  from one two three four show ?thesis by blast
qed

subsection \<open>Draw order\<close>

lemma mset_insertBy: "mset (insertBy compareFn v ws) = add_mset v (mset ws)"
  by (induction ws) auto

lemma mset_arraySort: "mset (arraySort compareFn vs) = mset vs"
  by (induction vs) (auto simp: mset_insertBy)

lemma set_insertBy: "set (insertBy compareFn v ws) = insert v (set ws)"
  by (induction ws) auto

lemma sorted_insertBy_depth:
  "sorted (map depth ws) \<Longrightarrow>
   sorted (map depth (insertBy (\<lambda>lhs rhs. depth lhs - depth rhs) v ws))"
  by (induction ws) (auto simp: set_insertBy)

lemma sorted_arraySort_depth:
  "sorted (map depth (arraySort (\<lambda>lhs rhs. depth lhs - depth rhs) vs))"
  by (induction vs) (auto intro: sorted_insertBy_depth)

text \<open>
  C8. \<^verbatim>\<open>processSelectedTiles\<close> returns a permutation of the selected tiles in ascending
  order of depth: a tile never comes after a tile of greater depth.
\<close>

theorem processSelectedTiles_sorted_permutation:
  "mset (processSelectedTiles selected) = mset selected
   \<and> sorted (map depth (processSelectedTiles selected))
   \<and> (\<forall>i j. i < j \<and> j < length (processSelectedTiles selected) \<longrightarrow>
        depth (processSelectedTiles selected ! i) \<le> depth (processSelectedTiles selected ! j))"
proof -
  let ?r = "processSelectedTiles selected"
  have p: "mset ?r = mset selected"
    by (simp add: processSelectedTiles_def mset_arraySort)
  have s: "sorted (map depth ?r)"
    by (simp add: processSelectedTiles_def sorted_arraySort_depth)
  have "\<forall>i j. i < j \<and> j < length ?r \<longrightarrow> depth (?r ! i) \<le> depth (?r ! j)"
  proof (intro allI impI)
    fix i j assume ij: "i < j \<and> j < length ?r"
    then have "map depth ?r ! i \<le> map depth ?r ! j"
      using s by (simp add: sorted_iff_nth_mono)
    then show "depth (?r ! i) \<le> depth (?r ! j)" using ij by simp
  qed
  with p s show ?thesis by blast
qed

theorem processSelectedTiles_sorted_permutation_witness:
  "processSelectedTiles
     [\<lparr>contentId = ''2_1_1'', depth = 2, isLoading = False\<rparr>, \<lparr>contentId = ''1_0_0'', depth = 1, isLoading = False\<rparr>,
      \<lparr>contentId = ''3_2_2'', depth = 3, isLoading = False\<rparr>, \<lparr>contentId = ''1_1_0'', depth = 1, isLoading = False\<rparr>]
   = [\<lparr>contentId = ''1_0_0'', depth = 1, isLoading = False\<rparr>, \<lparr>contentId = ''1_1_0'', depth = 1, isLoading = False\<rparr>,
      \<lparr>contentId = ''2_1_1'', depth = 2, isLoading = False\<rparr>, \<lparr>contentId = ''3_2_2'', depth = 3, isLoading = False\<rparr>]
   \<and> sorted (map depth (processSelectedTiles
     [\<lparr>contentId = ''2_1_1'', depth = 2, isLoading = False\<rparr>, \<lparr>contentId = ''1_0_0'', depth = 1, isLoading = False\<rparr>,
      \<lparr>contentId = ''3_2_2'', depth = 3, isLoading = False\<rparr>, \<lparr>contentId = ''1_1_0'', depth = 1, isLoading = False\<rparr>]))"
proof -
  let ?sel = "[\<lparr>contentId = ''2_1_1'', depth = 2, isLoading = False\<rparr>, \<lparr>contentId = ''1_0_0'', depth = 1, isLoading = False\<rparr>,
      \<lparr>contentId = ''3_2_2'', depth = 3, isLoading = False\<rparr>, \<lparr>contentId = ''1_1_0'', depth = 1, isLoading = False\<rparr>]"
  have run: "processSelectedTiles ?sel
      = [\<lparr>contentId = ''1_0_0'', depth = 1, isLoading = False\<rparr>, \<lparr>contentId = ''1_1_0'', depth = 1, isLoading = False\<rparr>,
         \<lparr>contentId = ''2_1_1'', depth = 2, isLoading = False\<rparr>, \<lparr>contentId = ''3_2_2'', depth = 3, isLoading = False\<rparr>]"
    by (simp add: processSelectedTiles_def)
  have "sorted (map depth (processSelectedTiles ?sel))"
    using processSelectedTiles_sorted_permutation [of ?sel] by blast
  with run show ?thesis by blast
qed

subsection \<open>Content ids\<close>

lemma digit_cases: "d < 10 \<Longrightarrow> d \<in> {0, 1, 2, 3, 4, 5, 6, 7, 8, 9::nat}"
  by auto

lemma digitChar_props:
  assumes "d < 10"
  shows "isDigit (digitChar d)" "digitValue (digitChar d) = d"
  using digit_cases [OF assms]
  by (auto simp: isDigit_def digitValue_def digitChar_def)

lemma natToDigits_nonempty: "natToDigits n \<noteq> []"
  by (subst natToDigits.simps) simp

lemma natToDigits_isDigit: "c \<in> set (natToDigits n) \<Longrightarrow> isDigit c"
proof (induction n rule: natToDigits.induct)
  case (1 n)
  show ?case
  proof (cases "n < 10")
    case True
    then show ?thesis
      using "1.prems" by (subst (asm) natToDigits.simps) (simp add: digitChar_props)
  next
    case False
    then have "c \<in> set (natToDigits (n div 10)) \<or> c = digitChar (n mod 10)"
      using "1.prems" by (subst (asm) natToDigits.simps) auto
    then show ?thesis
      using "1.IH" False by (auto simp: digitChar_props)
  qed
qed

lemma isDigit_not_special:
  "isDigit c \<Longrightarrow> c \<noteq> CHR ''_'' \<and> c \<noteq> CHR ''-'' \<and> c \<noteq> CHR ''+'' \<and> \<not> isWhiteSpace c"
  by (auto simp: isDigit_def isWhiteSpace_def)

lemma digitsToNat_snoc: "digitsToNat (ds @ [c]) = 10 * digitsToNat ds + digitValue c"
  by (simp add: digitsToNat_def)

lemma digitsToNat_natToDigits: "digitsToNat (natToDigits n) = n"
proof (induction n rule: natToDigits.induct)
  case (1 n)
  show ?case
  proof (cases "n < 10")
    case True
    then show ?thesis
      by (subst natToDigits.simps) (simp add: digitsToNat_def digitChar_props)
  next
    case False
    then have "digitsToNat (natToDigits n) = 10 * (n div 10) + n mod 10"
      using "1.IH" by (subst natToDigits.simps) (simp add: digitsToNat_snoc digitChar_props)
    then show ?thesis by simp
  qed
qed

lemma takeWhile_all: "(\<And>c. c \<in> set ds \<Longrightarrow> P c) \<Longrightarrow> takeWhile P ds = ds"
  by (induction ds) auto

lemma parseInt_digits:
  assumes "ds \<noteq> []" "\<And>c. c \<in> set ds \<Longrightarrow> isDigit c" "roundMagnitude (digitsToNat ds) = Some v"
  shows "parseInt ds = Num (int v)" "parseInt (CHR ''-'' # ds) = Num (- int v)"
proof -
  obtain d rest where ds: "ds = d # rest" using assms(1) by (cases ds) auto
  then have d: "isDigit d" using assms(2) by simp
  have tw: "takeWhile isDigit ds = ds" using assms(2) by (rule takeWhile_all)
  have S: "dropWhile isWhiteSpace ds = ds"
    using ds isDigit_not_special [OF d] by simp
  have neg: "(case ds of c # _ \<Rightarrow> c = CHR ''-'' | [] \<Rightarrow> False) = False"
    using ds isDigit_not_special [OF d] by simp
  have S1: "(case ds of c # r \<Rightarrow> if c = CHR ''-'' \<or> c = CHR ''+'' then r else ds | [] \<Rightarrow> ds) = ds"
    using ds isDigit_not_special [OF d] by simp
  show "parseInt ds = Num (int v)"
    using assms(1,3) by (simp add: parseInt_def Let_def S neg S1 tw)
  have "\<not> isWhiteSpace CHR ''-''" by (simp add: isWhiteSpace_def)
  then show "parseInt (CHR ''-'' # ds) = Num (- int v)"
    using assms(1,3) by (simp add: parseInt_def Let_def tw)
qed

lemma bitLength_one: "bitLength (Suc 0) = Suc 0"
  by (simp add: bitLength.simps [of "Suc 0"] bitLength.simps [of 0])

lemma bitLength_bounds: "0 < n \<Longrightarrow> 2 ^ (bitLength n - 1) \<le> n \<and> n < 2 ^ bitLength n"
proof (induction n rule: bitLength.induct)
  case (1 n)
  show ?case
  proof (cases "n div 2 = 0")
    case True
    then have n1: "n = Suc 0" using "1.prems" by presburger
    show ?thesis unfolding n1 by (simp add: bitLength_one)
  next
    case False
    then have ih: "2 ^ (bitLength (n div 2) - 1) \<le> n div 2 \<and> n div 2 < 2 ^ bitLength (n div 2)"
      using "1.IH" "1.prems" by simp
    have pos: "0 < bitLength (n div 2)"
      using False by (subst bitLength.simps) simp
    have bl: "bitLength n = Suc (bitLength (n div 2))"
      using "1.prems" by (subst bitLength.simps) simp
    have lo: "2 ^ (bitLength n - 1) \<le> n"
    proof -
      have "2 ^ (bitLength n - 1) = 2 * 2 ^ (bitLength (n div 2) - 1)"
        using bl pos by (cases "bitLength (n div 2)") simp_all
      also have "\<dots> \<le> 2 * (n div 2)" using ih by simp
      also have "\<dots> \<le> n" by simp
      finally show ?thesis .
    qed
    have hi: "n < 2 ^ bitLength n"
    proof -
      have "n < 2 * (n div 2 + 1)" by presburger
      also have "\<dots> \<le> 2 * 2 ^ bitLength (n div 2)" using ih by simp
      finally show ?thesis using bl by simp
    qed
    from lo hi show ?thesis by blast
  qed
qed

lemma roundMagnitude_small: "m < 2 ^ 53 \<Longrightarrow> roundMagnitude m = Some m"
  by (simp add: roundMagnitude_def)

lemma roundMagnitude_lower:
  assumes "roundMagnitude v = Some r" "2 ^ 53 \<le> v"
  shows "(v div 2 ^ (bitLength v - 53)) * 2 ^ (bitLength v - 53) \<le> r"
  using assms
  by (auto simp: roundMagnitude_def Let_def split: if_splits)

lemma roundMagnitude_ge_1e21:
  assumes "roundMagnitude v = Some r" "10 ^ 21 \<le> v"
  shows "(10::nat) ^ 21 \<le> r"
proof -
  let ?b = "bitLength v"
  let ?e = "?b - 53"
  have big: "(2::nat) ^ 53 \<le> v" using assms(2) by simp
  have pos: "0 < v" using assms(2) by simp
  have bnd: "2 ^ (?b - 1) \<le> v" "v < 2 ^ ?b"
    using bitLength_bounds [OF pos] by simp_all
  have "(2::nat) ^ 69 < 2 ^ ?b"
  proof -
    have "(2::nat) ^ 69 \<le> 10 ^ 21" by simp
    then show ?thesis using assms(2) bnd(2) by linarith
  qed
  then have "69 < ?b"
    using power_less_imp_less_exp [of 2 69 ?b] by simp
  then have b70: "70 \<le> ?b" by simp
  have low: "(v div 2 ^ ?e) * 2 ^ ?e \<le> r"
    using roundMagnitude_lower [OF assms(1) big] .
  show ?thesis
  proof (cases "?b = 70")
    case True
    have e: "?e = 17" unfolding True by simp
    have low17: "(v div 2 ^ 17) * 2 ^ 17 \<le> r"
      using low unfolding e .
    have exact: "((10::nat) ^ 21 div 2 ^ 17) * 2 ^ 17 = 10 ^ 21" by simp
    have "(10::nat) ^ 21 div 2 ^ 17 \<le> v div 2 ^ 17"
      using assms(2) by (rule div_le_mono)
    then have "((10::nat) ^ 21 div 2 ^ 17) * 2 ^ 17 \<le> (v div 2 ^ 17) * 2 ^ 17"
      by (rule mult_le_mono1)
    then have "(10::nat) ^ 21 \<le> (v div 2 ^ 17) * 2 ^ 17"
      unfolding exact .
    then show ?thesis using low17 by (rule order_trans)
  next
    case False
    then have b71: "71 \<le> ?b" using b70 by simp
    have be: "?b - 1 = 52 + ?e" using b71 by simp
    have split: "(2::nat) ^ (?b - 1) = 2 ^ 52 * 2 ^ ?e"
      unfolding be by (rule power_add)
    have "(2::nat) ^ 52 * 2 ^ ?e \<le> v" using bnd(1) unfolding split .
    then have "((2::nat) ^ 52 * 2 ^ ?e) div 2 ^ ?e \<le> v div 2 ^ ?e"
      by (rule div_le_mono)
    moreover have "((2::nat) ^ 52 * 2 ^ ?e) div 2 ^ ?e = 2 ^ 52"
      by (rule nonzero_mult_div_cancel_right) simp
    ultimately have "(2::nat) ^ 52 \<le> v div 2 ^ ?e" by (simp only:)
    then have "(2::nat) ^ 52 * 2 ^ ?e \<le> (v div 2 ^ ?e) * 2 ^ ?e"
      by (rule mult_le_mono1)
    then have "(2::nat) ^ (?b - 1) \<le> r"
      unfolding split using low by (rule order_trans)
    moreover have "(2::nat) ^ 70 \<le> 2 ^ (?b - 1)"
      by (rule power_increasing) (use b71 in simp_all)
    moreover have "(10::nat) ^ 21 \<le> 2 ^ 70" by simp
    ultimately show ?thesis by (meson order_trans)
  qed
qed

lemma shortestFrom_rounds:
  "roundMagnitude x = Some x \<Longrightarrow> roundMagnitude (shortestFrom x D k) = Some x"
proof (induction x D k rule: shortestFrom.induct)
  case (1 x D k)
  show ?case
  proof (cases "k \<ge> D")
    case True
    then show ?thesis using "1.prems" by (subst shortestFrom.simps) simp
  next
    case False
    let ?p = "10 ^ (D - k) :: nat"
    let ?lo = "(x div ?p) * ?p"
    let ?hi = "?lo + ?p"
    show ?thesis
    proof (cases "roundMagnitude ?lo = Some x \<or> roundMagnitude ?hi = Some x")
      case True
      then show ?thesis
        using False by (subst shortestFrom.simps) (auto simp: Let_def)
    next
      case none: False
      then have "shortestFrom x D k = shortestFrom x D (k + 1)"
        using False by (subst shortestFrom.simps) (simp add: Let_def)
      then show ?thesis
        using "1.IH" [OF False refl refl refl refl refl] none "1.prems" by simp
    qed
  qed
qed

lemma shortestDecimal_rounds:
  "roundMagnitude x = Some x \<Longrightarrow> roundMagnitude (shortestDecimal x) = Some x"
  by (simp add: shortestDecimal_def shortestFrom_rounds)

lemma shortestDecimal_below_1e21:
  assumes "roundMagnitude x = Some x" "x < 10 ^ 21"
  shows "shortestDecimal x < 10 ^ 21"
proof (rule ccontr)
  assume "\<not> shortestDecimal x < 10 ^ 21"
  then have "10 ^ 21 \<le> shortestDecimal x" by simp
  then have "10 ^ 21 \<le> x"
    using roundMagnitude_ge_1e21 [OF shortestDecimal_rounds [OF assms(1)]] by simp
  then show False using assms(2) by simp
qed

lemma magnitudeToString_number:
  "roundMagnitude m = Some m \<Longrightarrow> m < 10 ^ 21 \<Longrightarrow>
   magnitudeToString m = natToDigits (shortestDecimal m)"
  using shortestDecimal_below_1e21 [of m] by (simp add: magnitudeToString_def Let_def)

lemma parseInt_numberToString:
  assumes "isNumberValue n" "\<bar>n\<bar> < 10 ^ 21"
  shows "parseInt (numberToString (Num n)) = Num n"
proof (cases "n < 0")
  case True
  let ?m = "nat (- n)"
  have m: "roundMagnitude ?m = Some ?m" "?m < 10 ^ 21"
    using assms True by (simp_all add: isNumberValue_def nat_less_iff abs_if)
  have "numberToString (Num n) = CHR ''-'' # natToDigits (shortestDecimal ?m)"
    using True magnitudeToString_number [OF m] by simp
  moreover have "roundMagnitude (digitsToNat (natToDigits (shortestDecimal ?m))) = Some ?m"
    using shortestDecimal_rounds [OF m(1)] by (simp add: digitsToNat_natToDigits)
  ultimately show ?thesis
    using parseInt_digits(2) [of "natToDigits (shortestDecimal ?m)" ?m,
        OF natToDigits_nonempty natToDigits_isDigit] True
    by simp
next
  case False
  let ?m = "nat n"
  have m: "roundMagnitude ?m = Some ?m" "?m < 10 ^ 21"
    using assms False by (simp_all add: isNumberValue_def nat_less_iff abs_if)
  have "numberToString (Num n) = natToDigits (shortestDecimal ?m)"
    using False magnitudeToString_number [OF m] by simp
  moreover have "roundMagnitude (digitsToNat (natToDigits (shortestDecimal ?m))) = Some ?m"
    using shortestDecimal_rounds [OF m(1)] by (simp add: digitsToNat_natToDigits)
  ultimately show ?thesis
    using parseInt_digits(1) [of "natToDigits (shortestDecimal ?m)" ?m,
        OF natToDigits_nonempty natToDigits_isDigit] False
    by simp
qed

lemma numberToString_no_separator:
  assumes "isNumberValue n" "\<bar>n\<bar> < 10 ^ 21"
  shows "CHR ''_'' \<notin> set (numberToString (Num n))"
proof -
  have d: "CHR ''_'' \<notin> set (natToDigits m)" for m
    using natToDigits_isDigit [of "CHR ''_''" m] isDigit_not_special [of "CHR ''_''"] by blast
  show ?thesis
  proof (cases "n < 0")
    case True
    then have "roundMagnitude (nat (- n)) = Some (nat (- n))" "nat (- n) < 10 ^ 21"
      using assms by (simp_all add: isNumberValue_def nat_less_iff abs_if)
    then show ?thesis using True d by (simp add: magnitudeToString_number)
  next
    case False
    then have "roundMagnitude (nat n) = Some (nat n)" "nat n < 10 ^ 21"
      using assms by (simp_all add: isNumberValue_def nat_less_iff abs_if)
    then show ?thesis using False d by (simp add: magnitudeToString_number)
  qed
qed

lemma splitFrom_part:
  "sep \<notin> set a \<Longrightarrow> splitFrom sep cur (a @ sep # rest) = (rev cur @ a) # splitFrom sep [] rest"
  by (induction a arbitrary: cur) auto

lemma splitFrom_last: "sep \<notin> set a \<Longrightarrow> splitFrom sep cur a = [rev cur @ a]"
  by (induction a arbitrary: cur) auto

lemma split_three:
  assumes "sep \<notin> set a" "sep \<notin> set b" "sep \<notin> set c"
  shows "split (a @ [sep] @ b @ [sep] @ c) sep = [a, b, c]"
  using assms by (simp add: split_def splitFrom_part splitFrom_last)

lemma isNumberValue_safe: "\<bar>n\<bar> < 2 ^ 53 \<Longrightarrow> isNumberValue n"
  by (simp add: isNumberValue_def roundMagnitude_small nat_less_iff)

text \<open>
  C1 (amended). For every \<^verbatim>\<open>QuadId\<close> whose level, column and row are integer-valued
  numbers, with \<open>0 \<le> level < 10^21\<close> and column and row of magnitude below \<open>10^21\<close>,
  \<^verbatim>\<open>createFromContentId\<close> of the \<^verbatim>\<open>contentId\<close> string returns the same \<^verbatim>\<open>QuadId\<close>. From
  \<open>10^21\<close> on, the number prints in exponential notation and \<^verbatim>\<open>parseInt\<close> reads its
  leading digits only.
\<close>

theorem createFromContentId_contentId:
  assumes "isNumberValue l" "0 \<le> l" "l < 10 ^ 21"
    and "isNumberValue c" "\<bar>c\<bar> < 10 ^ 21"
    and "isNumberValue r" "\<bar>r\<bar> < 10 ^ 21"
  shows "createFromContentId (QuadId_contentId (newQuadId (Num l) (Num c) (Num r)))
         = Inr (newQuadId (Num l) (Num c) (Num r))"
proof -
  have l: "\<bar>l\<bar> < 10 ^ 21" using assms(2,3) by simp
  have parts: "split (QuadId_contentId (newQuadId (Num l) (Num c) (Num r))) CHR ''_''
      = [numberToString (Num l), numberToString (Num c), numberToString (Num r)]"
    using split_three [OF numberToString_no_separator [OF assms(1) l]
        numberToString_no_separator [OF assms(4,5)] numberToString_no_separator [OF assms(6,7)]]
    by (simp add: QuadId_contentId_def newQuadId_def del: numberToString.simps)
  show ?thesis
    unfolding createFromContentId_def parts
    by (simp add: parseInt_numberToString [OF assms(1) l] parseInt_numberToString [OF assms(4,5)]
        parseInt_numberToString [OF assms(6,7)] del: numberToString.simps)
qed

lemma bitLength_eq:
  assumes "2 ^ (b - 1) \<le> m" "m < 2 ^ b" "0 < b"
  shows "bitLength m = b"
proof -
  have pos: "0 < m"
  proof (rule ccontr)
    assume "\<not> 0 < m"
    then have "(2::nat) ^ (b - 1) = 0" using assms(1) by simp
    then show False by simp
  qed
  have bnd: "2 ^ (bitLength m - 1) \<le> m" "m < 2 ^ bitLength m"
    using bitLength_bounds [OF pos] by simp_all
  have "(2::nat) ^ (bitLength m - 1) < 2 ^ b" using bnd(1) assms(2) by linarith
  then have a: "bitLength m - 1 < b"
    using power_less_imp_less_exp [of 2 "bitLength m - 1" b] by simp
  have "(2::nat) ^ (b - 1) < 2 ^ bitLength m" using bnd(2) assms(1) by linarith
  then have c: "b - 1 < bitLength m"
    using power_less_imp_less_exp [of 2 "b - 1" "bitLength m"] by simp
  from a c assms(3) show ?thesis by linarith
qed

lemma roundMagnitude_binade:
  assumes "2 ^ (b - 1) \<le> m" "m < 2 ^ b" "54 \<le> b" "b \<le> 1023"
  shows "roundMagnitude m =
     Some ((if m mod 2 ^ (b - 53) > 2 ^ (b - 54) \<or>
               (m mod 2 ^ (b - 53) = 2 ^ (b - 54) \<and> odd (m div 2 ^ (b - 53)))
            then m div 2 ^ (b - 53) + 1 else m div 2 ^ (b - 53)) * 2 ^ (b - 53))"
proof -
  let ?e = "b - 53"
  let ?q = "m div 2 ^ ?e"
  let ?q' = "(if m mod 2 ^ ?e > 2 ^ (b - 54) \<or> (m mod 2 ^ ?e = 2 ^ (b - 54) \<and> odd ?q)
              then ?q + 1 else ?q)"
  have bl: "bitLength m = b"
    using bitLength_eq [OF assms(1,2)] assms(3) by simp
  have big: "\<not> m < 2 ^ 53"
  proof -
    have "(2::nat) ^ 53 \<le> 2 ^ (b - 1)"
      by (rule power_increasing) (use assms(3) in simp_all)
    then show ?thesis using assms(1) by linarith
  qed
  have be: "b = 53 + ?e" using assms(3) by simp
  have "m < 2 ^ 53 * 2 ^ ?e"
    using assms(2) by (subst (asm) be) (simp add: power_add)
  then have "?q < 2 ^ 53"
    by (simp add: less_mult_imp_div_less)
  then have "?q' \<le> 2 ^ 53" by simp
  then have "?q' * 2 ^ ?e \<le> 2 ^ 53 * 2 ^ ?e" by (rule mult_le_mono1)
  also have "(2::nat) ^ 53 * 2 ^ ?e = 2 ^ b"
    by (subst (2) be) (simp add: power_add)
  also have "(2::nat) ^ b \<le> 2 ^ 1023"
    by (rule power_increasing) (use assms(4) in simp_all)
  also have "(2::nat) ^ 1023 < 2 ^ 1024" by simp
  finally have fin: "\<not> 2 ^ 1024 \<le> ?q' * 2 ^ ?e" by simp
  have e1: "?e - 1 = b - 54" by simp
  show ?thesis
    unfolding roundMagnitude_def Let_def bl e1
    using big fin by (simp only: if_False)
qed

lemma roundMagnitude_64:
  "2 ^ 63 \<le> m \<Longrightarrow> m < 2 ^ 64 \<Longrightarrow>
   roundMagnitude m =
     Some ((if m mod 2048 > 1024 \<or> (m mod 2048 = 1024 \<and> odd (m div 2048))
            then m div 2048 + 1 else m div 2048) * 2048)"
  using roundMagnitude_binade [of 64 m] by simp

lemma roundMagnitude_65:
  "2 ^ 64 \<le> m \<Longrightarrow> m < 2 ^ 65 \<Longrightarrow>
   roundMagnitude m =
     Some ((if m mod 4096 > 2048 \<or> (m mod 4096 = 2048 \<and> odd (m div 4096))
            then m div 4096 + 1 else m div 4096) * 4096)"
  using roundMagnitude_binade [of 65 m] by simp

lemma roundMagnitude_70:
  "2 ^ 69 \<le> m \<Longrightarrow> m < 2 ^ 70 \<Longrightarrow>
   roundMagnitude m =
     Some ((if m mod 131072 > 65536 \<or> (m mod 131072 = 65536 \<and> odd (m div 131072))
            then m div 131072 + 1 else m div 131072) * 131072)"
  using roundMagnitude_binade [of 70 m] by simp

lemma roundMagnitude_71:
  "2 ^ 70 \<le> m \<Longrightarrow> m < 2 ^ 71 \<Longrightarrow>
   roundMagnitude m =
     Some ((if m mod 262144 > 131072 \<or> (m mod 262144 = 131072 \<and> odd (m div 262144))
            then m div 262144 + 1 else m div 262144) * 262144)"
  using roundMagnitude_binade [of 71 m] by simp

lemma shortestFrom_2_64: "shortestFrom 18446744073709551616 20 (Suc 0) = 18446744073709552000"
  by (simp add: shortestFrom.simps roundMagnitude_64 roundMagnitude_65 Let_def)

lemma shortestDecimal_2_64: "shortestDecimal 18446744073709551616 = 18446744073709552000"
proof -
  have "length (natToDigits 18446744073709551616) = 20"
    by (simp add: natToDigits.simps)
  then show ?thesis
    by (simp add: shortestDecimal_def shortestFrom_2_64)
qed

lemma shortestDecimal_1e21: "shortestDecimal 1000000000000000000000 = 1000000000000000000000"
  by (simp add: shortestDecimal_def shortestFrom.simps roundMagnitude_70 roundMagnitude_71
      natToDigits.simps Let_def)

theorem createFromContentId_contentId_witness:
  "isNumberValue 18446744073709551616 \<and> (0::int) \<le> 18446744073709551616
   \<and> (18446744073709551616::int) < 10 ^ 21
   \<and> isNumberValue (- 7) \<and> \<bar>- 7 :: int\<bar> < 10 ^ 21
   \<and> isNumberValue 4095 \<and> \<bar>4095 :: int\<bar> < 10 ^ 21
   \<and> QuadId_contentId (newQuadId (Num 18446744073709551616) (Num (- 7)) (Num 4095))
       = ''18446744073709552000_-7_4095''
   \<and> createFromContentId
         (QuadId_contentId (newQuadId (Num 18446744073709551616) (Num (- 7)) (Num 4095)))
       = Inr (newQuadId (Num 18446744073709551616) (Num (- 7)) (Num 4095))"
proof -
  have big: "isNumberValue 18446744073709551616"
    by (simp add: isNumberValue_def roundMagnitude_65)
  have small: "isNumberValue (- 7)" "isNumberValue 4095"
    by (simp_all add: isNumberValue_safe)
  have m: "magnitudeToString 18446744073709551616 = ''18446744073709552000''"
    by (simp add: magnitudeToString_def shortestDecimal_2_64 natToDigits.simps digitChar_def)
  have d: "magnitudeToString 7 = ''7''" "magnitudeToString 4095 = ''4095''"
    by (simp_all add: magnitudeToString_def shortestDecimal_def natToDigits.simps digitChar_def)
  have s: "QuadId_contentId (newQuadId (Num 18446744073709551616) (Num (- 7)) (Num 4095))
      = ''18446744073709552000_-7_4095''"
    by (simp add: QuadId_contentId_def newQuadId_def m d)
  have "createFromContentId
         (QuadId_contentId (newQuadId (Num 18446744073709551616) (Num (- 7)) (Num 4095)))
       = Inr (newQuadId (Num 18446744073709551616) (Num (- 7)) (Num 4095))"
    using createFromContentId_contentId [of 18446744073709551616 "- 7" 4095] big small by simp
  with big small s show ?thesis by simp
qed

theorem createFromContentId_contentId_counterexample:
  "isNumberValue 1000000000000000000000
   \<and> QuadId_contentId (newQuadId (Num 1000000000000000000000) (Num 0) (Num 0)) = ''1e+21_0_0''
   \<and> createFromContentId (QuadId_contentId (newQuadId (Num 1000000000000000000000) (Num 0) (Num 0)))
       = Inr (newQuadId (Num 1) (Num 0) (Num 0))
   \<and> createFromContentId (QuadId_contentId (newQuadId (Num 1000000000000000000000) (Num 0) (Num 0)))
       \<noteq> Inr (newQuadId (Num 1000000000000000000000) (Num 0) (Num 0))"
proof -
  have n: "isNumberValue 1000000000000000000000"
    by (simp add: isNumberValue_def roundMagnitude_70)
  have m: "magnitudeToString 1000000000000000000000 = ''1e+21''"
    by (simp add: magnitudeToString_def shortestDecimal_1e21 stripTrailingZeros_def
        natToDigits.simps digitChar_def)
  have z: "magnitudeToString 0 = ''0''"
    by (simp add: magnitudeToString_def shortestDecimal_def natToDigits.simps digitChar_def)
  have c: "QuadId_contentId (newQuadId (Num 1000000000000000000000) (Num 0) (Num 0))
      = ''1e+21_0_0''"
    by (simp add: QuadId_contentId_def newQuadId_def m z)
  have p: "createFromContentId ''1e+21_0_0'' = Inr (newQuadId (Num 1) (Num 0) (Num 0))"
    by (simp add: createFromContentId_def split_def parseInt_def isWhiteSpace_def isDigit_def
        digitsToNat_def digitValue_def roundMagnitude_def)
  show ?thesis unfolding c p using n by (simp add: newQuadId_def)
qed

lemma parseInt_rounds: "parseInt ''9007199254740993'' = Num 9007199254740992"
proof -
  have "roundMagnitude 9007199254740993 = Some 9007199254740992"
    using roundMagnitude_binade [of 54 9007199254740993] by simp
  then show ?thesis
    by (simp add: parseInt_def isWhiteSpace_def isDigit_def digitsToNat_def digitValue_def)
qed

text \<open>
  C3 (amended). For every string that splits on \<^verbatim>\<open>_\<close> into exactly three parts,
  \<^verbatim>\<open>createFromContentId\<close> does not throw and returns the \<^verbatim>\<open>QuadId\<close> whose level, column and
  row are \<^verbatim>\<open>parseInt\<close> of the three parts, numeric or not: it is valid exactly when the
  level read is at least 0, and a first part with no leading integer gives level \<open>NaN\<close>,
  which is not valid.
\<close>

theorem createFromContentId_three_parts:
  assumes "length (split s CHR ''_'') = 3"
  shows "createFromContentId s =
           Inr (newQuadId (parseInt (split s CHR ''_'' ! 0)) (parseInt (split s CHR ''_'' ! 1))
                  (parseInt (split s CHR ''_'' ! 2)))
   \<and> (\<forall>q. createFromContentId s = Inr q \<longrightarrow>
         (isValid q \<longleftrightarrow> jsGreaterEq (parseInt (split s CHR ''_'' ! 0)) (Num 0)) \<and>
         (parseInt (split s CHR ''_'' ! 0) = NaN \<longrightarrow> level q = NaN \<and> \<not> isValid q))"
  using assms by (auto simp: createFromContentId_def Let_def isValid_def newQuadId_def)

theorem createFromContentId_three_parts_witness:
  "length (split ''a_2_3'' CHR ''_'') = 3
   \<and> createFromContentId ''a_2_3'' = Inr (newQuadId NaN (Num 2) (Num 3))
   \<and> \<not> isValid (newQuadId NaN (Num 2) (Num 3))
   \<and> length (split ''12_-7_4095'' CHR ''_'') = 3
   \<and> createFromContentId ''12_-7_4095'' = Inr (newQuadId (Num 12) (Num (- 7)) (Num 4095))
   \<and> isValid (newQuadId (Num 12) (Num (- 7)) (Num 4095))"
proof -
  have a: "length (split ''a_2_3'' CHR ''_'') = 3"
    by (simp add: split_def)
  have pa: "parseInt (split ''a_2_3'' CHR ''_'' ! 0) = NaN"
    "parseInt (split ''a_2_3'' CHR ''_'' ! 1) = Num 2"
    "parseInt (split ''a_2_3'' CHR ''_'' ! 2) = Num 3"
    by (simp_all add: split_def parseInt_def isWhiteSpace_def isDigit_def digitsToNat_def
        digitValue_def roundMagnitude_def)
  have b: "length (split ''12_-7_4095'' CHR ''_'') = 3"
    by (simp add: split_def)
  have pb: "parseInt (split ''12_-7_4095'' CHR ''_'' ! 0) = Num 12"
    "parseInt (split ''12_-7_4095'' CHR ''_'' ! 1) = Num (- 7)"
    "parseInt (split ''12_-7_4095'' CHR ''_'' ! 2) = Num 4095"
    by (simp_all add: split_def parseInt_def isWhiteSpace_def isDigit_def digitsToNat_def
        digitValue_def roundMagnitude_def)
  have one: "createFromContentId ''a_2_3'' = Inr (newQuadId NaN (Num 2) (Num 3))"
    using createFromContentId_three_parts [OF a] unfolding pa by blast
  have two: "createFromContentId ''12_-7_4095'' = Inr (newQuadId (Num 12) (Num (- 7)) (Num 4095))"
    using createFromContentId_three_parts [OF b] unfolding pb by blast
  have v1: "\<not> isValid (newQuadId NaN (Num 2) (Num 3))"
    using createFromContentId_three_parts [OF a] one unfolding pa by simp
  have v2: "isValid (newQuadId (Num 12) (Num (- 7)) (Num 4095))"
    using createFromContentId_three_parts [OF b] two unfolding pb by simp
  from a b one two v1 v2 show ?thesis by blast
qed

theorem createFromContentId_malformed_counterexample:
  "createFromContentId ''1_b_c'' = Inr (newQuadId (Num 1) NaN NaN)
   \<and> level (newQuadId (Num 1) NaN NaN) \<noteq> Num (- 1)
   \<and> isValid (newQuadId (Num 1) NaN NaN)
   \<and> createFromContentId ''bad'' = Inl (AssertionError ''Invalid quadtree ID'')"
proof -
  have e: "createFromContentId ''1_b_c'' = Inr (newQuadId (Num 1) NaN NaN)"
    by (simp add: createFromContentId_def split_def parseInt_def isWhiteSpace_def isDigit_def
        digitsToNat_def digitValue_def roundMagnitude_def)
  have b: "createFromContentId ''bad'' = Inl (AssertionError ''Invalid quadtree ID'')"
    by (simp add: createFromContentId_def split_def assert_def)
  show ?thesis unfolding e b by (simp add: newQuadId_def isValid_def)
qed

subsection \<open>Quadkeys\<close>

lemma fromCharCode_digits:
  "fromCharCode 48 = CHR ''0''" "fromCharCode 49 = CHR ''1''"
  "fromCharCode 50 = CHR ''2''" "fromCharCode 51 = CHR ''3''"
  by (simp_all add: fromCharCode_def char_of_def bit_Suc_0_iff)

lemma mask_test:
  assumes "0 < i" "i \<le> 32"
  shows "bitAnd v (leftShift 1 (i - 1)) \<noteq> 0 \<longleftrightarrow> bit v (nat (i - 1))"
proof -
  have m: "(i - 1) mod 32 = i - 1" using assms by simp
  have n: "nat (i - 1) < 32" using assms by simp
  have "bitAnd v (leftShift 1 (i - 1)) \<noteq> 0 \<longleftrightarrow> bit (word_of_int v :: 32 word) (nat (i - 1))"
    unfolding bitAnd_def leftShift_def toInt32_def m
    by (simp add: bit_iff_and_push_bit_not_eq_0)
  also have "\<dots> \<longleftrightarrow> bit v (nat (i - 1))"
    using n by (simp add: bit_word_of_int_iff)
  finally show ?thesis .
qed

lemma quadKeyByFormula_Suc:
  "quadKeyByFormula col rw (Suc n) = quadKeyDigit col rw n # quadKeyByFormula col rw n"
  by (simp add: quadKeyByFormula_def)

lemma quadKeyLoop_formula:
  "0 \<le> i \<Longrightarrow> i \<le> 32 \<Longrightarrow>
   quadKeyLoop tileX tileY i quadKey = quadKey @ quadKeyByFormula tileX tileY (nat i)"
proof (induction tileX tileY i quadKey rule: quadKeyLoop.induct)
  case (1 tileX tileY i quadKey)
  show ?case
  proof (cases "i > 0")
    case False
    then have "i = 0" using "1.prems" by simp
    then show ?thesis
      by (subst quadKeyLoop.simps) (simp add: quadKeyByFormula_def)
  next
    case True
    let ?n = "nat (i - 1)"
    let ?m = "leftShift 1 (i - 1)"
    let ?d = "(if bitAnd tileY ?m \<noteq> 0
               then (if bitAnd tileX ?m \<noteq> 0 then 48 + 1 else 48) + 2
               else (if bitAnd tileX ?m \<noteq> 0 then 48 + 1 else (48::nat)))"
    have tx: "bitAnd tileX ?m \<noteq> 0 \<longleftrightarrow> bit tileX ?n"
      using mask_test [of i tileX] True "1.prems" by simp
    have ty: "bitAnd tileY ?m \<noteq> 0 \<longleftrightarrow> bit tileY ?n"
      using mask_test [of i tileY] True "1.prems" by simp
    have digit: "fromCharCode ?d = quadKeyDigit tileX tileY ?n"
      unfolding tx ty by (simp add: quadKeyDigit_def)
    have step: "quadKeyLoop tileX tileY i quadKey
        = quadKeyLoop tileX tileY (i - 1) (quadKey @ [fromCharCode ?d])"
      using True by (subst quadKeyLoop.simps) (simp add: Let_def)
    have ih: "quadKeyLoop tileX tileY (i - 1) (quadKey @ [fromCharCode ?d])
        = (quadKey @ [fromCharCode ?d]) @ quadKeyByFormula tileX tileY ?n"
      using "1.IH" [OF True refl refl refl refl] True "1.prems" by simp
    have "nat i = Suc ?n" using True by simp
    then show ?thesis
      using step ih digit by (simp add: quadKeyByFormula_Suc)
  qed
qed

lemma quadKey_1_1_1: "tileXYToQuadKey 1 1 1 = ''3''"
  by (simp add: tileXYToQuadKey_def quadKeyLoop.simps leftShift_def bitAnd_def toInt32_def
      fromCharCode_digits)

lemma quadKey_1_1_2: "tileXYToQuadKey 1 1 2 = ''03''"
  by (simp add: tileXYToQuadKey_def quadKeyLoop.simps leftShift_def bitAnd_def toInt32_def
      fromCharCode_digits)

text \<open>
  C2 (amended). The quadkey of zoom level 1, column 1, row 1 is \<^verbatim>\<open>"3"\<close>, and of zoom
  level 2, column 1, row 1 it is \<^verbatim>\<open>"03"\<close>. For every zoom level \<open>z\<close> from 1 to 32 and all
  integers column and row, the quadkey has exactly \<open>z\<close> digits, most significant first,
  the digit for bit position \<open>i\<close> (from \<open>z - 1\<close> down to 0) being
  \<open>'0' + 2 * bit(row, i) + bit(column, i)\<close>.
\<close>

theorem tileXYToQuadKey_digits:
  assumes "1 \<le> z" "z \<le> 32"
  shows "tileXYToQuadKey col rw z = quadKeyByFormula col rw (nat z)
         \<and> length (tileXYToQuadKey col rw z) = nat z
         \<and> tileXYToQuadKey 1 1 1 = ''3''
         \<and> tileXYToQuadKey 1 1 2 = ''03''"
proof -
  have "tileXYToQuadKey col rw z = quadKeyByFormula col rw (nat z)"
    using assms quadKeyLoop_formula [of z col rw "[]"] by (simp add: tileXYToQuadKey_def)
  moreover have "length (quadKeyByFormula col rw (nat z)) = nat z"
    by (simp add: quadKeyByFormula_def)
  ultimately show ?thesis using quadKey_1_1_1 quadKey_1_1_2 by simp
qed

theorem tileXYToQuadKey_digits_witness:
  "(1::int) \<le> 3 \<and> (3::int) \<le> 32 \<and> tileXYToQuadKey 3 5 3 = ''213''
   \<and> length (tileXYToQuadKey 3 5 3) = 3"
proof -
  have f: "quadKeyByFormula 3 5 3 = ''213''"
    by (simp add: quadKeyByFormula_def quadKeyDigit_def fromCharCode_digits upt_rec
        bit_numeral_simps)
  show ?thesis
    using tileXYToQuadKey_digits [of 3 3 5] f by simp
qed

theorem tileXYToQuadKey_counterexample:
  "tileXYToQuadKey 1 1 2 \<noteq> ''30''
   \<and> tileXYToQuadKey 1 0 33 = ''100000000000000000000000000000001''
   \<and> quadKeyByFormula 1 0 33 = ''000000000000000000000000000000001''
   \<and> tileXYToQuadKey 1 0 33 \<noteq> quadKeyByFormula 1 0 33"
proof -
  have a: "tileXYToQuadKey 1 1 2 = ''03''"
    by (simp add: tileXYToQuadKey_def quadKeyLoop.simps leftShift_def bitAnd_def toInt32_def
        fromCharCode_digits)
  have b: "tileXYToQuadKey 1 0 33 = ''100000000000000000000000000000001''"
    by (simp add: tileXYToQuadKey_def quadKeyLoop.simps leftShift_def bitAnd_def toInt32_def
        fromCharCode_digits)
  have c: "quadKeyByFormula 1 0 33 = ''000000000000000000000000000000001''"
    by (simp add: quadKeyByFormula_def quadKeyDigit_def fromCharCode_digits upt_rec
        bit_numeral_simps)
  show ?thesis unfolding a b c by simp
qed

subsection \<open>Coverage\<close>

lemma getLatLongRange_ordered:
  "fst (low (getLatLongRange q s)) \<le> fst (high (getLatLongRange q s))
   \<and> snd (low (getLatLongRange q s)) \<le> snd (high (getLatLongRange q s))"
  by (simp add: getLatLongRange_def rangeOfTwoPoints_def Let_def min_le_iff_disj le_max_iff_disj
      split: prod.splits)

lemma overlaps_eq:
  "overlaps c q s \<longleftrightarrow>
     \<not> jsLess (level q) (Num (minimumZoomLevel c)) \<and>
     \<not> jsGreater (level q) (Num (maximumZoomLevel c)) \<and>
     boxesIntersect (getLatLongRange q s) (coverageBox c)"
  by (auto simp: overlaps_def Let_def boxesIntersect_def coverageBox_def)

lemma boxInside_intersect: "boxInside a b \<Longrightarrow> boxesIntersect a b"
  by (auto simp: boxInside_def boxPoints_def boxesIntersect_def)

lemma boxesIntersect_common_point:
  assumes "fst (low a) \<le> fst (high a)" "snd (low a) \<le> snd (high a)"
    and "fst (low b) \<le> fst (high b)" "snd (low b) \<le> snd (high b)"
  shows "boxesIntersect a b \<longleftrightarrow> boxPoints a \<inter> boxPoints b \<noteq> {}"
proof
  assume i: "boxesIntersect a b"
  let ?p = "(max (fst (low a)) (fst (low b)), max (snd (low a)) (snd (low b)))"
  have "?p \<in> boxPoints a" "?p \<in> boxPoints b"
    using i assms by (auto simp: boxesIntersect_def boxPoints_def)
  then show "boxPoints a \<inter> boxPoints b \<noteq> {}" by blast
next
  assume "boxPoints a \<inter> boxPoints b \<noteq> {}"
  then obtain p where "p \<in> boxPoints a" "p \<in> boxPoints b" by blast
  then show "boxesIntersect a b"
    by (auto simp: boxesIntersect_def boxPoints_def)
qed

text \<open>
  C4. \<^verbatim>\<open>Coverage.overlaps\<close> is false whenever the quad's level is below the minimum or
  above the maximum zoom level, whatever the geography. Otherwise it is true exactly when
  the quad's latitude/longitude range and the coverage's box pass the inclusive
  intersection test of axis-aligned boxes; in particular it is true for a quad whose range
  lies inside the box.
\<close>

theorem overlaps_zoom_and_box:
  "(jsLess (level q) (Num (minimumZoomLevel c)) \<or> jsGreater (level q) (Num (maximumZoomLevel c))
      \<longrightarrow> \<not> overlaps c q s)
   \<and> (\<not> jsLess (level q) (Num (minimumZoomLevel c)) \<and>
       \<not> jsGreater (level q) (Num (maximumZoomLevel c))
      \<longrightarrow> (overlaps c q s \<longleftrightarrow> boxesIntersect (getLatLongRange q s) (coverageBox c)))
   \<and> (\<not> jsLess (level q) (Num (minimumZoomLevel c)) \<and>
       \<not> jsGreater (level q) (Num (maximumZoomLevel c)) \<and>
       boxInside (getLatLongRange q s) (coverageBox c)
      \<longrightarrow> overlaps c q s)"
  using boxInside_intersect [of "getLatLongRange q s" "coverageBox c"]
  by (auto simp: overlaps_eq)

lemma degreesPerRadian_nonzero: "degreesPerRadian \<noteq> 0"
  by (simp add: degreesPerRadian_def)

theorem overlaps_zoom_and_box_witness:
  "overlaps
     \<lparr>lowerLeftLatitude = 0, lowerLeftLongitude = 0, upperRightLatitude = 5,
      upperRightLongitude = 5, minimumZoomLevel = 1, maximumZoomLevel = 3\<rparr>
     (newQuadId (Num 2) (Num 1) (Num 1))
     degreeGridScheme
   \<and> \<not> overlaps
     \<lparr>lowerLeftLatitude = 0, lowerLeftLongitude = 0, upperRightLatitude = 5,
      upperRightLongitude = 5, minimumZoomLevel = 1, maximumZoomLevel = 3\<rparr>
     (newQuadId (Num 4) (Num 1) (Num 1))
     degreeGridScheme
   \<and> \<not> overlaps
     \<lparr>lowerLeftLatitude = 0, lowerLeftLongitude = 0, upperRightLatitude = 5,
      upperRightLongitude = 5, minimumZoomLevel = 1, maximumZoomLevel = 3\<rparr>
     (newQuadId (Num 2) (Num 6) (Num 1))
     degreeGridScheme"
proof -
  let ?c = "\<lparr>lowerLeftLatitude = 0, lowerLeftLongitude = 0, upperRightLatitude = 5,
      upperRightLongitude = 5, minimumZoomLevel = 1, maximumZoomLevel = 3\<rparr>"
  let ?s = "degreeGridScheme"
  have r: "getLatLongRange (newQuadId (Num l) (Num a) (Num b)) ?s
      = \<lparr>low = (real_of_int a, real_of_int b), high = (real_of_int (a + 1), real_of_int (b + 1))\<rparr>"
    for l a b
    by (simp add: getLatLongRange_def rangeOfTwoPoints_def newQuadId_def degreesPerRadian_nonzero
        Let_def)
  have lv: "level (newQuadId l a b) = l" for l a b
    by (simp add: newQuadId_def)
  have inside: "boxInside (getLatLongRange (newQuadId (Num 2) (Num 1) (Num 1)) ?s) (coverageBox ?c)"
    unfolding r by (simp add: boxInside_def boxPoints_def coverageBox_def)
  have zoom2: "\<not> jsLess (level (newQuadId (Num 2) a b)) (Num (minimumZoomLevel ?c)) \<and>
      \<not> jsGreater (level (newQuadId (Num 2) a b)) (Num (maximumZoomLevel ?c))" for a b
    by (simp add: lv)
  have zoom4: "jsGreater (level (newQuadId (Num 4) (Num 1) (Num 1))) (Num (maximumZoomLevel ?c))"
    by (simp add: lv)
  have one: "overlaps ?c (newQuadId (Num 2) (Num 1) (Num 1)) ?s"
    using overlaps_zoom_and_box [of "newQuadId (Num 2) (Num 1) (Num 1)" ?c ?s] inside zoom2
    by blast
  have two: "\<not> overlaps ?c (newQuadId (Num 4) (Num 1) (Num 1)) ?s"
    using overlaps_zoom_and_box [of "newQuadId (Num 4) (Num 1) (Num 1)" ?c ?s] zoom4
    by blast
  have apart: "\<not> boxesIntersect (getLatLongRange (newQuadId (Num 2) (Num 6) (Num 1)) ?s) (coverageBox ?c)"
    unfolding r by (simp add: boxesIntersect_def coverageBox_def)
  have three: "\<not> overlaps ?c (newQuadId (Num 2) (Num 6) (Num 1)) ?s"
    using overlaps_zoom_and_box [of "newQuadId (Num 2) (Num 6) (Num 1)" ?c ?s] apart zoom2
    by blast
  from one two three show ?thesis by blast
qed

subsection \<open>Attributions\<close>

lemma present_map_Some: "present (map Some as) = as"
  by (induction as) auto

lemma present_delete:
  "i < length u \<Longrightarrow> u ! i = Some a \<Longrightarrow>
   add_mset a (mset (present (u[i := None]))) = mset (present u)"
proof (induction u arbitrary: i)
  case Nil
  then show ?case by simp
next
  case (Cons slot rest)
  show ?case
  proof (cases i)
    case 0
    then show ?thesis using Cons.prems by simp
  next
    case (Suc j)
    then have "add_mset a (mset (present (rest[j := None]))) = mset (present rest)"
      using Cons.IH [of j] Cons.prems by simp
    then show ?thesis using Suc by (cases slot) auto
  qed
qed

lemma attributionLoop_invariant:
  "attributionLoop tile s u m i = Inr (u', m') \<Longrightarrow>
   mset m' + mset (present u') = mset m + mset (present u)
   \<and> (\<forall>a \<in> set m'. a \<in> set m \<or> matchesTile a tile s = Inr True)"
proof (induction tile s u m i arbitrary: u' m' rule: attributionLoop.induct)
  case (1 tile s u m i)
  show ?case
  proof (cases "i < length u")
    case False
    then have "u' = u" "m' = m"
      using "1.prems" by (subst (asm) attributionLoop.simps, simp)+
    then show ?thesis by simp
  next
    case inb: True
    show ?thesis
    proof (cases "u ! i")
      case None
      then have "attributionLoop tile s u m (i + 1) = Inr (u', m')"
        using "1.prems" inb by (subst (asm) attributionLoop.simps) simp
      then show ?thesis using "1.IH"(1) [OF inb None] by blast
    next
      case (Some a)
      show ?thesis
      proof (cases "matchesTile a tile s")
        case (Inl e)
        then have False
          using "1.prems" inb Some by (subst (asm) attributionLoop.simps) simp
        then show ?thesis ..
      next
        case (Inr matched)
        show ?thesis
        proof (cases matched)
          case False
          then have "attributionLoop tile s u m (i + 1) = Inr (u', m')"
            using "1.prems" inb Some Inr by (subst (asm) attributionLoop.simps) simp
          then show ?thesis using "1.IH"(3) [OF inb Some Inr False] by blast
        next
          case True
          then have "attributionLoop tile s (u[i := None]) (m @ [a]) (i + 1) = Inr (u', m')"
            using "1.prems" inb Some Inr by (subst (asm) attributionLoop.simps) simp
          then have ih: "mset m' + mset (present u') = mset (m @ [a]) + mset (present (u[i := None]))
              \<and> (\<forall>b \<in> set m'. b \<in> set (m @ [a]) \<or> matchesTile b tile s = Inr True)"
            using "1.IH"(2) [OF inb Some Inr True] by blast
          have "mset (m @ [a]) + mset (present (u[i := None])) = mset m + mset (present u)"
            using present_delete [OF inb Some] by simp
          then show ?thesis using ih True Inr by auto
        qed
      qed
    qed
  qed
qed

lemma matchesTile_returns:
  "length (split (contentId tile) CHR ''_'') = 3 \<Longrightarrow> \<exists>b. matchesTile a tile s = Inr b"
  by (simp add: matchesTile_def createFromContentId_def Let_def)

lemma attributionLoop_returns:
  "length (split (contentId tile) CHR ''_'') = 3 \<Longrightarrow>
   \<exists>u' m'. attributionLoop tile s u m i = Inr (u', m')"
proof (induction tile s u m i rule: attributionLoop.induct)
  case (1 tile s u m i)
  show ?case
  proof (cases "i < length u")
    case False
    then show ?thesis by (subst attributionLoop.simps) simp
  next
    case inb: True
    show ?thesis
    proof (cases "u ! i")
      case None
      then show ?thesis
        using "1.IH"(1) [OF inb None "1.prems"] inb by (subst attributionLoop.simps) simp
    next
      case (Some a)
      obtain matched where mt: "matchesTile a tile s = Inr matched"
        using matchesTile_returns [OF "1.prems"] by blast
      show ?thesis
      proof (cases matched)
        case True
        then show ?thesis
          using "1.IH"(2) [OF inb Some mt True "1.prems"] inb Some mt
          by (subst attributionLoop.simps) simp
      next
        case False
        then show ?thesis
          using "1.IH"(3) [OF inb Some mt False "1.prems"] inb Some mt
          by (subst attributionLoop.simps) simp
      qed
    qed
  qed
qed

lemma tilesLoop_subset:
  "tilesLoop tiles s u m = Inr r \<Longrightarrow> mset r \<subseteq># mset m + mset (present u)"
proof (induction tiles arbitrary: u m)
  case Nil
  then show ?case by simp
next
  case (Cons tile tiles)
  show ?case
  proof (cases "attributionLoop tile s u m 0")
    case (Inl e)
    then show ?thesis using Cons.prems by simp
  next
    case (Inr p)
    obtain u' m' where p: "p = (u', m')" by (cases p) auto
    have step: "attributionLoop tile s u m 0 = Inr (u', m')" using Inr p by simp
    then have "tilesLoop tiles s u' m' = Inr r" using Cons.prems by simp
    then have "mset r \<subseteq># mset m' + mset (present u')" by (rule Cons.IH)
    then show ?thesis using attributionLoop_invariant [OF step] by simp
  qed
qed

lemma tilesLoop_matches:
  "tilesLoop tiles s u m = Inr r \<Longrightarrow> a \<in> set r \<Longrightarrow>
   a \<in> set m \<or> (\<exists>t \<in> set tiles. matchesTile a t s = Inr True)"
proof (induction tiles arbitrary: u m)
  case Nil
  then show ?case by simp
next
  case (Cons tile tiles)
  show ?case
  proof (cases "attributionLoop tile s u m 0")
    case (Inl e)
    then show ?thesis using Cons.prems by simp
  next
    case (Inr p)
    obtain u' m' where p: "p = (u', m')" by (cases p) auto
    have step: "attributionLoop tile s u m 0 = Inr (u', m')" using Inr p by simp
    then have "tilesLoop tiles s u' m' = Inr r" using Cons.prems by simp
    then have "a \<in> set m' \<or> (\<exists>t \<in> set tiles. matchesTile a t s = Inr True)"
      using Cons.prems(2) by (rule Cons.IH)
    then show ?thesis using attributionLoop_invariant [OF step] by auto
  qed
qed

lemma tilesLoop_returns:
  "\<forall>t \<in> set tiles. length (split (contentId t) CHR ''_'') = 3 \<Longrightarrow>
   \<exists>r. tilesLoop tiles s u m = Inr r"
proof (induction tiles arbitrary: u m)
  case Nil
  then show ?case by simp
next
  case (Cons tile tiles)
  obtain u' m' where step: "attributionLoop tile s u m 0 = Inr (u', m')"
    using attributionLoop_returns [of tile s u m 0] Cons.prems by auto
  have "\<exists>r. tilesLoop tiles s u' m' = Inr r"
    using Cons.IH Cons.prems by simp
  then show ?case using step by simp
qed

lemma distinct_submultiset:
  assumes "mset r \<subseteq># mset as" "distinct as"
  shows "distinct r"
proof -
  have le: "count (mset r) a \<le> 1" for a
  proof -
    have "count (mset r) a \<le> count (mset as) a"
      using assms(1) by (rule mset_subset_eq_count)
    also have "\<dots> \<le> 1"
      using assms(2) by (simp add: distinct_count_atmost_1)
    finally show ?thesis .
  qed
  have "count (mset r) a = (if a \<in> set r then 1 else 0)" for a
  proof (cases "a \<in> set r")
    case True
    then have "0 < count (mset r) a" by (simp add: count_greater_zero_iff)
    then have "count (mset r) a = 1" using le [of a] by linarith
    then show ?thesis using True by (simp only: if_True)
  next
    case False
    then show ?thesis by (simp add: count_eq_zero_iff)
  qed
  then show ?thesis by (simp add: distinct_count_atmost_1)
qed

text \<open>
  C5. For every tile list, the list that \<^verbatim>\<open>getMatchingAttributions\<close> returns holds each
  attribution of the provider's list at most once, however many tiles match it (it is a
  sub-multiset of the list, and has no duplicates when the list has none), and every
  attribution in it matches at least one of the tiles. The method returns whenever the
  content id of every tile has three parts; otherwise \<^verbatim>\<open>createFromContentId\<close> may throw
  and nothing is returned.
\<close>

theorem getMatchingAttributions_once:
  "(\<forall>r. getMatchingAttributions this tiles = Inr r \<longrightarrow>
      mset r \<subseteq># mset (case attributions this of None \<Rightarrow> [] | Some attrs \<Rightarrow> attrs)
      \<and> (\<forall>a \<in> set r. \<exists>t \<in> set tiles. matchesTile a t (mapTilingScheme this) = Inr True)
      \<and> (distinct (case attributions this of None \<Rightarrow> [] | Some attrs \<Rightarrow> attrs)
           \<longrightarrow> distinct r))
   \<and> ((\<forall>t \<in> set tiles. length (split (contentId t) CHR ''_'') = 3) \<longrightarrow>
        (\<exists>r. getMatchingAttributions this tiles = Inr r))"
proof -
  let ?all = "case attributions this of None \<Rightarrow> [] | Some attrs \<Rightarrow> attrs"
  have safe: "mset r \<subseteq># mset ?all
      \<and> (\<forall>a \<in> set r. \<exists>t \<in> set tiles. matchesTile a t (mapTilingScheme this) = Inr True)
      \<and> (distinct ?all \<longrightarrow> distinct r)"
    if ret: "getMatchingAttributions this tiles = Inr r" for r
  proof -
    have sub: "mset r \<subseteq># mset ?all"
    proof (cases "attributions this")
      case None
      then show ?thesis using ret by (simp add: getMatchingAttributions_def)
    next
      case (Some attrs)
      then have "tilesLoop tiles (mapTilingScheme this) (map Some attrs) [] = Inr r"
        using ret by (simp add: getMatchingAttributions_def)
      then show ?thesis
        using tilesLoop_subset [of tiles "mapTilingScheme this" "map Some attrs" "[]" r] Some
        by (simp add: present_map_Some)
    qed
    have mat: "\<forall>a \<in> set r. \<exists>t \<in> set tiles. matchesTile a t (mapTilingScheme this) = Inr True"
    proof (cases "attributions this")
      case None
      then show ?thesis using ret by (simp add: getMatchingAttributions_def)
    next
      case (Some attrs)
      then have "tilesLoop tiles (mapTilingScheme this) (map Some attrs) [] = Inr r"
        using ret by (simp add: getMatchingAttributions_def)
      then show ?thesis
        using tilesLoop_matches [of tiles "mapTilingScheme this" "map Some attrs" "[]" r] by auto
    qed
    have dis: "distinct ?all \<longrightarrow> distinct r"
      using distinct_submultiset [OF sub] by blast
    from sub mat dis show ?thesis by blast
  qed
  have total: "\<exists>r. getMatchingAttributions this tiles = Inr r"
    if wf: "\<forall>t \<in> set tiles. length (split (contentId t) CHR ''_'') = 3"
  proof (cases "attributions this")
    case None
    then show ?thesis by (simp add: getMatchingAttributions_def)
  next
    case (Some attrs)
    then show ?thesis
      using tilesLoop_returns [OF wf, of "mapTilingScheme this" "map Some attrs" "[]"]
      by (simp add: getMatchingAttributions_def)
  qed
  from safe total show ?thesis by blast
qed

theorem getMatchingAttributions_once_witness:
  "getMatchingAttributions
     \<lparr>attributions = Some
        [\<lparr>copyrightMessage = ''HERE'', coverages =
            [\<lparr>lowerLeftLatitude = 0, lowerLeftLongitude = 0, upperRightLatitude = 5,
              upperRightLongitude = 5, minimumZoomLevel = 1, maximumZoomLevel = 3\<rparr>]\<rparr>,
         \<lparr>copyrightMessage = ''Other'', coverages =
            [\<lparr>lowerLeftLatitude = 50, lowerLeftLongitude = 50, upperRightLatitude = 60,
              upperRightLongitude = 60, minimumZoomLevel = 1, maximumZoomLevel = 3\<rparr>]\<rparr>],
      missingTileData = None,
      mapTilingScheme = degreeGridScheme\<rparr>
     [\<lparr>contentId = ''2_1_1'', depth = 2, isLoading = False\<rparr>,
      \<lparr>contentId = ''2_2_2'', depth = 2, isLoading = False\<rparr>,
      \<lparr>contentId = ''2_1_2'', depth = 2, isLoading = False\<rparr>]
   = Inr [\<lparr>copyrightMessage = ''HERE'', coverages =
        [\<lparr>lowerLeftLatitude = 0, lowerLeftLongitude = 0, upperRightLatitude = 5,
          upperRightLongitude = 5, minimumZoomLevel = 1, maximumZoomLevel = 3\<rparr>]\<rparr>]
   \<and> distinct [\<lparr>copyrightMessage = ''HERE'', coverages =
        [\<lparr>lowerLeftLatitude = 0, lowerLeftLongitude = 0, upperRightLatitude = 5,
          upperRightLongitude = 5, minimumZoomLevel = 1, maximumZoomLevel = 3\<rparr>]\<rparr>]
   \<and> matchesTile \<lparr>copyrightMessage = ''HERE'', coverages =
        [\<lparr>lowerLeftLatitude = 0, lowerLeftLongitude = 0, upperRightLatitude = 5,
          upperRightLongitude = 5, minimumZoomLevel = 1, maximumZoomLevel = 3\<rparr>]\<rparr>
        \<lparr>contentId = ''2_1_1'', depth = 2, isLoading = False\<rparr> degreeGridScheme = Inr True"
proof -
  let ?s = "degreeGridScheme"
  let ?here = "\<lparr>copyrightMessage = ''HERE'', coverages =
      [\<lparr>lowerLeftLatitude = 0, lowerLeftLongitude = 0, upperRightLatitude = 5,
        upperRightLongitude = 5, minimumZoomLevel = 1, maximumZoomLevel = 3\<rparr>]\<rparr>"
  let ?other = "\<lparr>copyrightMessage = ''Other'', coverages =
      [\<lparr>lowerLeftLatitude = 50, lowerLeftLongitude = 50, upperRightLatitude = 60,
        upperRightLongitude = 60, minimumZoomLevel = 1, maximumZoomLevel = 3\<rparr>]\<rparr>"
  let ?p = "\<lparr>attributions = Some [?here, ?other], missingTileData = None, mapTilingScheme = ?s\<rparr>"
  let ?tiles = "[\<lparr>contentId = ''2_1_1'', depth = 2, isLoading = False\<rparr>,
      \<lparr>contentId = ''2_2_2'', depth = 2, isLoading = False\<rparr>,
      \<lparr>contentId = ''2_1_2'', depth = 2, isLoading = False\<rparr>]"
  have ids: "createFromContentId ''2_1_1'' = Inr (newQuadId (Num 2) (Num 1) (Num 1))"
    "createFromContentId ''2_2_2'' = Inr (newQuadId (Num 2) (Num 2) (Num 2))"
    "createFromContentId ''2_1_2'' = Inr (newQuadId (Num 2) (Num 1) (Num 2))"
    by (simp_all add: createFromContentId_def split_def parseInt_def isWhiteSpace_def isDigit_def
        digitsToNat_def digitValue_def roundMagnitude_def)
  have r: "getLatLongRange (newQuadId (Num l) (Num a) (Num b)) ?s
      = \<lparr>low = (real_of_int a, real_of_int b), high = (real_of_int (a + 1), real_of_int (b + 1))\<rparr>"
    for l a b
    by (simp add: getLatLongRange_def rangeOfTwoPoints_def newQuadId_def degreesPerRadian_nonzero
        Let_def)
  have lv: "level (newQuadId l a b) = l" for l a b
    by (simp add: newQuadId_def)
  have here: "matchesTile ?here \<lparr>contentId = ''2_1_1'', depth = 2, isLoading = False\<rparr> ?s = Inr True"
    "matchesTile ?here \<lparr>contentId = ''2_2_2'', depth = 2, isLoading = False\<rparr> ?s = Inr True"
    "matchesTile ?here \<lparr>contentId = ''2_1_2'', depth = 2, isLoading = False\<rparr> ?s = Inr True"
    by (simp_all add: matchesTile_def ids overlaps_def r lv Let_def del: of_int_add)
  have other: "matchesTile ?other \<lparr>contentId = ''2_1_1'', depth = 2, isLoading = False\<rparr> ?s = Inr False"
    "matchesTile ?other \<lparr>contentId = ''2_2_2'', depth = 2, isLoading = False\<rparr> ?s = Inr False"
    "matchesTile ?other \<lparr>contentId = ''2_1_2'', depth = 2, isLoading = False\<rparr> ?s = Inr False"
    by (simp_all add: matchesTile_def ids overlaps_def r lv Let_def del: of_int_add)
  have run: "getMatchingAttributions ?p ?tiles = Inr [?here]"
    by (simp add: getMatchingAttributions_def attributionLoop.simps here other)
  have "distinct [?here, ?other]" by simp
  then have "distinct [?here]"
    using getMatchingAttributions_once [of ?p ?tiles] run by simp
  with run here(1) show ?thesis by blast
qed

lemma getMatchingAttributions_throws:
  "getMatchingAttributions
     \<lparr>attributions = Some [\<lparr>copyrightMessage = ''HERE'', coverages = []\<rparr>],
      missingTileData = None, mapTilingScheme = degreeGridScheme\<rparr>
     [\<lparr>contentId = ''bad'', depth = 2, isLoading = False\<rparr>]
   = Inl (AssertionError ''Invalid quadtree ID'')"
  by (simp add: getMatchingAttributions_def attributionLoop.simps matchesTile_def
      createFromContentId_def split_def assert_def)

subsection \<open>Tile loading\<close>

text \<open>
  C6. Once the URL is built, \<^verbatim>\<open>loadTile\<close> returns \<^verbatim>\<open>undefined\<close>, and does not throw, when
  the request fails, when the response body is empty and when the bytes match the
  provider's missing-tile fingerprint. When the bytes are accepted, content type
  \<^verbatim>\<open>image/jpeg\<close> gives a JPEG image source, \<^verbatim>\<open>image/png\<close> a PNG image source, and any
  other content type, or none, \<^verbatim>\<open>undefined\<close>.
\<close>

theorem loadTile_undefined_or_image:
  assumes "constructUrl rw col zoomLevel = Inr tileUrl"
  shows "(request tileUrl = Inl e \<longrightarrow>
            loadTile this constructUrl request rw col zoomLevel = Inr None)
   \<and> (request tileUrl = Inr tileResponse \<and> body tileResponse = [] \<longrightarrow>
            loadTile this constructUrl request rw col zoomLevel = Inr None)
   \<and> (request tileUrl = Inr tileResponse \<and> matchesMissingTile this (body tileResponse) \<longrightarrow>
            loadTile this constructUrl request rw col zoomLevel = Inr None)
   \<and> (request tileUrl = Inr tileResponse \<and> body tileResponse \<noteq> [] \<and>
        \<not> matchesMissingTile this (body tileResponse) \<longrightarrow>
          loadTile this constructUrl request rw col zoomLevel =
            (if header tileResponse ''content-type'' = Some ''image/jpeg''
             then Inr (Some \<lparr>data = body tileResponse, format = Jpeg\<rparr>)
             else if header tileResponse ''content-type'' = Some ''image/png''
             then Inr (Some \<lparr>data = body tileResponse, format = Png\<rparr>)
             else Inr None))"
  using assms by (auto simp: loadTile_def Let_def split: option.splits)

theorem loadTile_undefined_or_image_witness:
  "loadTile MapBox (\<lambda>r c z. Inr ''u'') (\<lambda>u. Inl (Error ''offline'')) (Num 1) (Num 1) (Num 1)
     = Inr None
   \<and> loadTile MapBox (\<lambda>r c z. Inr ''u'')
        (\<lambda>u. Inr \<lparr>body = [], header = [''content-type'' \<mapsto> ''image/png'']\<rparr>)
        (Num 1) (Num 1) (Num 1) = Inr None
   \<and> loadTile
        (Bing \<lparr>attributions = None, missingTileData = Some [7], mapTilingScheme = degreeGridScheme\<rparr>)
        (\<lambda>r c z. Inr ''u'')
        (\<lambda>u. Inr \<lparr>body = [7], header = [''content-type'' \<mapsto> ''image/png'']\<rparr>)
        (Num 1) (Num 1) (Num 1) = Inr None
   \<and> loadTile MapBox (\<lambda>r c z. Inr ''u'')
        (\<lambda>u. Inr \<lparr>body = [7], header = [''content-type'' \<mapsto> ''image/png'']\<rparr>)
        (Num 1) (Num 1) (Num 1) = Inr (Some \<lparr>data = [7], format = Png\<rparr>)
   \<and> loadTile MapBox (\<lambda>r c z. Inr ''u'')
        (\<lambda>u. Inr \<lparr>body = [7], header = [''content-type'' \<mapsto> ''image/jpeg'']\<rparr>)
        (Num 1) (Num 1) (Num 1) = Inr (Some \<lparr>data = [7], format = Jpeg\<rparr>)
   \<and> loadTile MapBox (\<lambda>r c z. Inr ''u'')
        (\<lambda>u. Inr \<lparr>body = [7], header = [''content-type'' \<mapsto> ''text/html'']\<rparr>)
        (Num 1) (Num 1) (Num 1) = Inr None"
proof -
  let ?url = "\<lambda>(r::jsnum) (c::jsnum) (z::jsnum). (Inr ''u'' :: error + string)"
  let ?bing = "Bing \<lparr>attributions = None, missingTileData = Some [7],
                     mapTilingScheme = degreeGridScheme\<rparr>"
  have u: "?url (Num 1) (Num 1) (Num 1) = Inr ''u''" by simp
  have m: "matchesMissingTile ?bing [7]"
    by (simp add: BingImageryProvider_matchesMissingTile_def missingTileLoop.simps
        typedArrayGet_def)
  have n: "\<not> matchesMissingTile MapBox [7]"
    by (simp add: ImageryProvider_matchesMissingTile_def)
  have one: "loadTile MapBox ?url (\<lambda>u. Inl (Error ''offline'')) (Num 1) (Num 1) (Num 1) = Inr None"
    using loadTile_undefined_or_image [OF u, where request = "\<lambda>u. Inl (Error ''offline'')" and e = "Error ''offline''"
        and this = MapBox]
    by simp
  have two: "loadTile MapBox ?url
        (\<lambda>u. Inr \<lparr>body = [], header = [''content-type'' \<mapsto> ''image/png'']\<rparr>)
        (Num 1) (Num 1) (Num 1) = Inr None"
    using loadTile_undefined_or_image [OF u,
        where request = "\<lambda>u. Inr \<lparr>body = [], header = [''content-type'' \<mapsto> ''image/png'']\<rparr>"
        and tileResponse = "\<lparr>body = [], header = [''content-type'' \<mapsto> ''image/png'']\<rparr>"
        and this = "MapBox"]
    by simp
  have three: "loadTile ?bing ?url
        (\<lambda>u. Inr \<lparr>body = [7], header = [''content-type'' \<mapsto> ''image/png'']\<rparr>)
        (Num 1) (Num 1) (Num 1) = Inr None"
    using loadTile_undefined_or_image [OF u,
        where request = "\<lambda>u. Inr \<lparr>body = [7], header = [''content-type'' \<mapsto> ''image/png'']\<rparr>"
        and tileResponse = "\<lparr>body = [7], header = [''content-type'' \<mapsto> ''image/png'']\<rparr>"
        and this = "?bing"] m
    by simp
  have four: "loadTile MapBox ?url
        (\<lambda>u. Inr \<lparr>body = [7], header = [''content-type'' \<mapsto> ''image/png'']\<rparr>)
        (Num 1) (Num 1) (Num 1) = Inr (Some \<lparr>data = [7], format = Png\<rparr>)"
    using loadTile_undefined_or_image [OF u,
        where request = "\<lambda>u. Inr \<lparr>body = [7], header = [''content-type'' \<mapsto> ''image/png'']\<rparr>"
        and tileResponse = "\<lparr>body = [7], header = [''content-type'' \<mapsto> ''image/png'']\<rparr>"
        and this = "MapBox"] n
    by simp
  have five: "loadTile MapBox ?url
        (\<lambda>u. Inr \<lparr>body = [7], header = [''content-type'' \<mapsto> ''image/jpeg'']\<rparr>)
        (Num 1) (Num 1) (Num 1) = Inr (Some \<lparr>data = [7], format = Jpeg\<rparr>)"
    using loadTile_undefined_or_image [OF u,
        where request = "\<lambda>u. Inr \<lparr>body = [7], header = [''content-type'' \<mapsto> ''image/jpeg'']\<rparr>"
        and tileResponse = "\<lparr>body = [7], header = [''content-type'' \<mapsto> ''image/jpeg'']\<rparr>"
        and this = "MapBox"] n
    by simp
  have six: "loadTile MapBox ?url
        (\<lambda>u. Inr \<lparr>body = [7], header = [''content-type'' \<mapsto> ''text/html'']\<rparr>)
        (Num 1) (Num 1) (Num 1) = Inr None"
    using loadTile_undefined_or_image [OF u,
        where request = "\<lambda>u. Inr \<lparr>body = [7], header = [''content-type'' \<mapsto> ''text/html'']\<rparr>"
        and tileResponse = "\<lparr>body = [7], header = [''content-type'' \<mapsto> ''text/html'']\<rparr>"
        and this = "MapBox"] n
    by simp
  from one two three four five six show ?thesis by blast
qed

text \<open>
  C7 (amended). When the reprojection of the tile's corners has completed and the caller's
  cancellation predicate returns true when it is called, which is once, after the image
  decode and before the texture is created, \<^verbatim>\<open>loadTileContent\<close> returns a content object
  without graphic and does not throw: no texture is created for the tile.
\<close>

theorem loadTileContent_canceled:
  assumes "reprojectCorners tile = Inr ()" "isCanceled AfterDecode"
  shows "loadTileContent reprojectCorners imageElementFromImageSource system tile responseData
           (Some isCanceled) = Inr \<lparr>graphic = None\<rparr>"
  using assms
  by (simp add: loadTileContent_def loadTextureImage_def split: sum.splits)

theorem loadTileContent_canceled_witness:
  "loadTileContent (\<lambda>t. Inr ()) (\<lambda>src. Inr 1)
     \<lparr>createTextureFromImage = (\<lambda>img png. Inr (Some 2)), createTile = (\<lambda>texture. Inr (Some 3)),
      createBatch = (\<lambda>g. Inr 4)\<rparr>
     \<lparr>contentId = ''2_1_1'', depth = 2, isLoading = True\<rparr>
     \<lparr>data = [7], format = Png\<rparr> (Some (\<lambda>m. True))
   = Inr \<lparr>graphic = None\<rparr>
   \<and> loadTileContent (\<lambda>t. Inr ()) (\<lambda>src. Inr 1)
     \<lparr>createTextureFromImage = (\<lambda>img png. Inr (Some 2)), createTile = (\<lambda>texture. Inr (Some 3)),
      createBatch = (\<lambda>g. Inr 4)\<rparr>
     \<lparr>contentId = ''2_1_1'', depth = 2, isLoading = True\<rparr>
     \<lparr>data = [7], format = Png\<rparr> (Some (\<lambda>m. False))
   = Inr \<lparr>graphic = Some 4\<rparr>"
proof -
  let ?sys = "\<lparr>createTextureFromImage = (\<lambda>(img::nat) (png::bool). Inr (Some 2)),
      createTile = (\<lambda>texture::nat. Inr (Some 3)), createBatch = (\<lambda>g::nat. Inr 4)\<rparr>
      :: RenderSystem"
  let ?tile = "\<lparr>contentId = ''2_1_1'', depth = 2, isLoading = True\<rparr>"
  have one: "loadTileContent (\<lambda>t. Inr ()) (\<lambda>src. Inr 1) ?sys ?tile \<lparr>data = [7], format = Png\<rparr>
      (Some (\<lambda>m. True)) = Inr \<lparr>graphic = None\<rparr>"
    using loadTileContent_canceled [of "\<lambda>t. Inr ()" ?tile "\<lambda>m. True"] by simp
  have two: "loadTileContent (\<lambda>t. Inr ()) (\<lambda>src. Inr 1) ?sys ?tile \<lparr>data = [7], format = Png\<rparr>
      (Some (\<lambda>m. False)) = Inr \<lparr>graphic = Some 4\<rparr>"
    by (simp add: loadTileContent_def loadTextureImage_def)
  from one two show ?thesis by blast
qed

theorem loadTileContent_canceled_counterexample:
  "loadTileContent (\<lambda>t. Inl (Error ''reprojection failed'')) (\<lambda>src. Inr 1)
     \<lparr>createTextureFromImage = (\<lambda>img png. Inr (Some 2)), createTile = (\<lambda>texture. Inr (Some 3)),
      createBatch = (\<lambda>g. Inr 4)\<rparr>
     \<lparr>contentId = ''2_1_1'', depth = 2, isLoading = True\<rparr>
     \<lparr>data = [7], format = Png\<rparr> (Some (\<lambda>m. True))
   = Inl (Error ''reprojection failed'')
   \<and> loadTileContent (\<lambda>t. Inr ()) (\<lambda>src. Inr 1)
     \<lparr>createTextureFromImage = (\<lambda>img png. Inr (Some 2)), createTile = (\<lambda>texture. Inr (Some 3)),
      createBatch = (\<lambda>g. Inr 4)\<rparr>
     \<lparr>contentId = ''2_1_1'', depth = 2, isLoading = True\<rparr>
     \<lparr>data = [7], format = Png\<rparr> (Some (\<lambda>m. m = BetweenFetchAndDecode))
   = Inr \<lparr>graphic = Some 4\<rparr>"
  by (simp add: loadTileContent_def loadTextureImage_def)

subsection \<open>Tile tree identity\<close>

lemma lexLess_irrefl: "\<not> lexLess k k"
  by (cases k) auto

lemma lexLess_trans: "lexLess k k' \<Longrightarrow> lexLess k' k'' \<Longrightarrow> lexLess k k''"
  by (cases k; cases k'; cases k'') auto

lemma lexLess_total: "k \<noteq> k' \<Longrightarrow> lexLess k k' \<or> lexLess k' k"
  by (cases k; cases k') auto

lemma lexLess_asym: "lexLess k k' \<Longrightarrow> \<not> lexLess k' k"
  using lexLess_trans [of k k' k] lexLess_irrefl [of k] by blast

lemma compareTileTreeIds_finite:
  assumes "groundBias lhs = Num g" "groundBias rhs = Num g'"
  shows "compareTileTreeIds lhs rhs =
     (if providerName lhs \<noteq> providerName rhs
      then (if providerName lhs < providerName rhs then Num (- 1) else Num 1)
      else if mapType lhs \<noteq> mapType rhs
      then Num (real_of_int (mapType lhs) - real_of_int (mapType rhs))
      else if g \<noteq> g' then Num (g - g')
      else if forDrape lhs \<noteq> forDrape rhs
      then (if forDrape lhs < forDrape rhs then Num (- 1) else Num 1)
      else Num 0)"
  using assms
  by (simp add: compareTileTreeIds_def Let_def compareStrings_def compareNumbers_def
      compareBooleans_def)

lemma compareTileTreeIds_sign:
  assumes "groundBias a = Num ga" "groundBias b = Num gb"
  shows "\<exists>v. compareTileTreeIds a b = Num v
     \<and> (v = 0 \<longleftrightarrow> (providerName a, mapType a, ga, forDrape a) = (providerName b, mapType b, gb, forDrape b))
     \<and> (v < 0 \<longleftrightarrow> lexLess (providerName a, mapType a, ga, forDrape a)
                       (providerName b, mapType b, gb, forDrape b))"
  unfolding compareTileTreeIds_finite [OF assms]
  by (auto simp: less_le)

text \<open>
  C9 (amended). \<^verbatim>\<open>compareTileTreeIds\<close> compares the identity tuple lexicographically by
  provider name, then map type, then ground bias, then drape flag, and returns \<open>-1\<close>, \<open>0\<close>
  or \<open>1\<close> when the provider names or the drape flags decide, and the difference of the
  map types or of the ground biases when these decide. For ids whose ground bias is a
  finite number the result is a number whose sign is a strict total order: it is \<open>0\<close>
  exactly when the four fields are equal, negative exactly when the first id comes first,
  positive exactly when the swapped comparison is negative, and transitive.
\<close>

theorem compareTileTreeIds_total_order:
  assumes "groundBias a = Num ga" "groundBias b = Num gb" "groundBias c = Num gc"
  shows "compareTileTreeIds a b \<noteq> NaN
   \<and> (providerName a \<noteq> providerName b \<or>
        (mapType a = mapType b \<and> ga = gb)
        \<longrightarrow> compareTileTreeIds a b \<in> {Num (- 1), Num 0, Num 1})
   \<and> (providerName a = providerName b \<and> mapType a \<noteq> mapType b
        \<longrightarrow> compareTileTreeIds a b = Num (real_of_int (mapType a) - real_of_int (mapType b)))
   \<and> (providerName a = providerName b \<and> mapType a = mapType b \<and> ga \<noteq> gb
        \<longrightarrow> compareTileTreeIds a b = jsSubtract (groundBias a) (groundBias b))
   \<and> (compareTileTreeIds a b = Num 0 \<longleftrightarrow>
        providerName a = providerName b \<and> mapType a = mapType b \<and>
        ga = gb \<and> forDrape a = forDrape b)
   \<and> (jsLess (compareTileTreeIds a b) (Num 0) \<longleftrightarrow>
        providerName a < providerName b \<or>
        (providerName a = providerName b \<and>
          (mapType a < mapType b \<or>
           (mapType a = mapType b \<and>
             (ga < gb \<or> (ga = gb \<and> forDrape a < forDrape b))))))
   \<and> (jsGreater (compareTileTreeIds a b) (Num 0) \<longleftrightarrow> jsLess (compareTileTreeIds b a) (Num 0))
   \<and> (jsLess (compareTileTreeIds a b) (Num 0) \<and> jsLess (compareTileTreeIds b c) (Num 0)
        \<longrightarrow> jsLess (compareTileTreeIds a c) (Num 0))
   \<and> (compareTileTreeIds a b = Num 0 \<and> compareTileTreeIds b c = Num 0
        \<longrightarrow> compareTileTreeIds a c = Num 0)"
proof -
  let ?ka = "(providerName a, mapType a, ga, forDrape a)"
  let ?kb = "(providerName b, mapType b, gb, forDrape b)"
  let ?kc = "(providerName c, mapType c, gc, forDrape c)"
  obtain vab where ab: "compareTileTreeIds a b = Num vab"
    "vab = 0 \<longleftrightarrow> ?ka = ?kb" "vab < 0 \<longleftrightarrow> lexLess ?ka ?kb"
    using compareTileTreeIds_sign [OF assms(1,2)] by blast
  obtain vba where ba: "compareTileTreeIds b a = Num vba"
    "vba = 0 \<longleftrightarrow> ?kb = ?ka" "vba < 0 \<longleftrightarrow> lexLess ?kb ?ka"
    using compareTileTreeIds_sign [OF assms(2,1)] by blast
  obtain vbc where bc: "compareTileTreeIds b c = Num vbc"
    "vbc = 0 \<longleftrightarrow> ?kb = ?kc" "vbc < 0 \<longleftrightarrow> lexLess ?kb ?kc"
    using compareTileTreeIds_sign [OF assms(2,3)] by blast
  obtain vac where ac: "compareTileTreeIds a c = Num vac"
    "vac = 0 \<longleftrightarrow> ?ka = ?kc" "vac < 0 \<longleftrightarrow> lexLess ?ka ?kc"
    using compareTileTreeIds_sign [OF assms(1,3)] by blast
  have c1: "compareTileTreeIds a b \<noteq> NaN" using ab(1) by simp
  have c2: "providerName a \<noteq> providerName b \<or> (mapType a = mapType b \<and> ga = gb)
      \<longrightarrow> compareTileTreeIds a b \<in> {Num (- 1), Num 0, Num 1}"
    unfolding compareTileTreeIds_finite [OF assms(1,2)] by auto
  have c3: "providerName a = providerName b \<and> mapType a \<noteq> mapType b
      \<longrightarrow> compareTileTreeIds a b = Num (real_of_int (mapType a) - real_of_int (mapType b))"
    unfolding compareTileTreeIds_finite [OF assms(1,2)] by simp
  have c4: "providerName a = providerName b \<and> mapType a = mapType b \<and> ga \<noteq> gb
      \<longrightarrow> compareTileTreeIds a b = jsSubtract (groundBias a) (groundBias b)"
    unfolding compareTileTreeIds_finite [OF assms(1,2)] using assms(1,2) by simp
  have c5: "compareTileTreeIds a b = Num 0 \<longleftrightarrow>
        providerName a = providerName b \<and> mapType a = mapType b \<and>
        ga = gb \<and> forDrape a = forDrape b"
    using ab by simp
  have c6: "jsLess (compareTileTreeIds a b) (Num 0) \<longleftrightarrow>
        providerName a < providerName b \<or>
        (providerName a = providerName b \<and>
          (mapType a < mapType b \<or>
           (mapType a = mapType b \<and>
             (ga < gb \<or> (ga = gb \<and> forDrape a < forDrape b)))))"
    using ab by simp
  have c7: "jsGreater (compareTileTreeIds a b) (Num 0) \<longleftrightarrow> jsLess (compareTileTreeIds b a) (Num 0)"
  proof -
    have "0 < vab \<longleftrightarrow> lexLess ?kb ?ka"
    proof
      assume "0 < vab"
      then have "?ka \<noteq> ?kb" "\<not> lexLess ?ka ?kb" using ab(2,3) by auto
      then show "lexLess ?kb ?ka" using lexLess_total [of ?ka ?kb] by blast
    next
      assume l: "lexLess ?kb ?ka"
      then have "\<not> lexLess ?ka ?kb" by (rule lexLess_asym)
      moreover have "?ka \<noteq> ?kb" using l lexLess_irrefl [of ?ka] by auto
      ultimately show "0 < vab" using ab(2,3) by linarith
    qed
    then show ?thesis using ab(1) ba(1,3) by simp
  qed
  have c8: "jsLess (compareTileTreeIds a b) (Num 0) \<and> jsLess (compareTileTreeIds b c) (Num 0)
      \<longrightarrow> jsLess (compareTileTreeIds a c) (Num 0)"
    using ab(1,3) bc(1,3) ac(1,3) lexLess_trans [of ?ka ?kb ?kc] by simp
  have c9: "compareTileTreeIds a b = Num 0 \<and> compareTileTreeIds b c = Num 0
      \<longrightarrow> compareTileTreeIds a c = Num 0"
    using ab(1,2) bc(1,2) ac(1,2) by simp
  from c1 c2 c3 c4 c5 c6 c7 c8 c9 show ?thesis by blast
qed

theorem compareTileTreeIds_total_order_witness:
  "compareTileTreeIds
     \<lparr>providerName = ''BingProvider'', mapType = 1, groundBias = Num 0, forDrape = False\<rparr>
     \<lparr>providerName = ''BingProvider'', mapType = 1, groundBias = Num (5 / 2), forDrape = False\<rparr>
     = Num (- (5 / 2))
   \<and> compareTileTreeIds
     \<lparr>providerName = ''BingProvider'', mapType = 1, groundBias = Num (5 / 2), forDrape = False\<rparr>
     \<lparr>providerName = ''MapBoxProvider'', mapType = 1, groundBias = Num 0, forDrape = False\<rparr>
     = Num (- 1)
   \<and> jsLess (compareTileTreeIds
     \<lparr>providerName = ''BingProvider'', mapType = 1, groundBias = Num 0, forDrape = False\<rparr>
     \<lparr>providerName = ''MapBoxProvider'', mapType = 1, groundBias = Num 0, forDrape = False\<rparr>)
     (Num 0)
   \<and> jsGreater (compareTileTreeIds
     \<lparr>providerName = ''BingProvider'', mapType = 1, groundBias = Num (5 / 2), forDrape = False\<rparr>
     \<lparr>providerName = ''BingProvider'', mapType = 1, groundBias = Num 0, forDrape = False\<rparr>)
     (Num 0)"
proof -
  let ?a = "\<lparr>providerName = ''BingProvider'', mapType = 1, groundBias = Num 0, forDrape = False\<rparr>"
  let ?b = "\<lparr>providerName = ''BingProvider'', mapType = 1, groundBias = Num (5 / 2), forDrape = False\<rparr>"
  let ?c = "\<lparr>providerName = ''MapBoxProvider'', mapType = 1, groundBias = Num 0, forDrape = False\<rparr>"
  have names: "''BingProvider'' < ''MapBoxProvider''"
    by (simp add: less_char_def)
  have ga: "groundBias ?a = Num 0" and gb: "groundBias ?b = Num (5 / 2)"
    and gc: "groundBias ?c = Num 0"
    by simp_all
  note t = compareTileTreeIds_total_order [OF ga gb gc]
  note t' = compareTileTreeIds_total_order [OF gb ga gc]
  have ab: "compareTileTreeIds ?a ?b = Num (- (5 / 2))"
    using t by simp
  have bc: "compareTileTreeIds ?b ?c = Num (- 1)"
    using names by (simp add: compareTileTreeIds_def compareStrings_def)
  have ac: "jsLess (compareTileTreeIds ?a ?c) (Num 0)"
    using t ab bc by simp
  have ba: "jsGreater (compareTileTreeIds ?b ?a) (Num 0)"
    using t' ab by simp
  from ab bc ac ba show ?thesis by blast
qed

theorem compareTileTreeIds_counterexample:
  "compareTileTreeIds
     \<lparr>providerName = ''BingProvider'', mapType = 1, groundBias = Num 0, forDrape = False\<rparr>
     \<lparr>providerName = ''BingProvider'', mapType = 1, groundBias = Num (5 / 2), forDrape = False\<rparr>
     = Num (- (5 / 2))
   \<and> Num (- (5 / 2)) \<notin> {Num (- 1), Num 0, Num (1::real)}
   \<and> compareTileTreeIds
     \<lparr>providerName = ''BingProvider'', mapType = 1, groundBias = PlusInfinity, forDrape = False\<rparr>
     \<lparr>providerName = ''BingProvider'', mapType = 1, groundBias = PlusInfinity, forDrape = False\<rparr>
     = NaN"
  by (simp add: compareTileTreeIds_def compareStrings_def compareNumbers_def compareBooleans_def)

end
